theory Spec2Isabelle
  imports Complex_Main "HOL-Library.Multiset"
begin

section \<open>Go strings\<close>

text \<open>
  A Go string is a sequence of bytes; \<open>len(s)\<close> counts bytes and \<open>s[i]\<close> reads a byte.
  The conversion \<open>[]rune(s)\<close> and \<open>for i, r := range s\<close> decode the bytes as UTF-8:
  every byte that does not start a well-formed encoding yields the rune U+FFFD and is
  consumed alone. Strings are modelled as \<open>string\<close> (a list of 8-bit characters), bytes
  and runes as natural numbers.
\<close>

type_synonym rune = nat

definition byte :: "char \<Rightarrow> nat" where
  "byte c = of_char c"

definition newline :: char where
  "newline = CHR 0x0A"

definition RuneError :: rune where
  "RuneError = 0xFFFD"

definition isCont :: "nat \<Rightarrow> bool" where
  "isCont b \<longleftrightarrow> 0x80 \<le> b \<and> b \<le> 0xBF"

text \<open>The range the second byte of a three- or four-byte encoding must lie in.\<close>

definition acceptLo :: "nat \<Rightarrow> nat" where
  "acceptLo b0 = (if b0 = 0xE0 then 0xA0 else if b0 = 0xF0 then 0x90 else 0x80)"

definition acceptHi :: "nat \<Rightarrow> nat" where
  "acceptHi b0 = (if b0 = 0xED then 0x9F else if b0 = 0xF4 then 0x8F else 0xBF)"

text \<open>\<open>utf8.DecodeRuneInString\<close>: the first rune of a byte sequence and its width.\<close>

fun decodeRune :: "nat list \<Rightarrow> rune \<times> nat" where
  "decodeRune [] = (RuneError, 0)"
| "decodeRune (b0 # bs) =
    (if b0 < 0x80 then (b0, 1)
     else if 0xC2 \<le> b0 \<and> b0 \<le> 0xDF then
       (case bs of
          b1 # _ \<Rightarrow>
            if isCont b1 then ((b0 mod 0x20) * 0x40 + b1 mod 0x40, 2) else (RuneError, 1)
        | _ \<Rightarrow> (RuneError, 1))
     else if 0xE0 \<le> b0 \<and> b0 \<le> 0xEF then
       (case bs of
          b1 # b2 # _ \<Rightarrow>
            if acceptLo b0 \<le> b1 \<and> b1 \<le> acceptHi b0 \<and> isCont b2
            then ((b0 mod 0x10) * 0x1000 + (b1 mod 0x40) * 0x40 + b2 mod 0x40, 3)
            else (RuneError, 1)
        | _ \<Rightarrow> (RuneError, 1))
     else if 0xF0 \<le> b0 \<and> b0 \<le> 0xF4 then
       (case bs of
          b1 # b2 # b3 # _ \<Rightarrow>
            if acceptLo b0 \<le> b1 \<and> b1 \<le> acceptHi b0 \<and> isCont b2 \<and> isCont b3
            then ((b0 mod 0x08) * 0x40000 + (b1 mod 0x40) * 0x1000
                    + (b2 mod 0x40) * 0x40 + b3 mod 0x40, 4)
            else (RuneError, 1)
        | _ \<Rightarrow> (RuneError, 1))
     else (RuneError, 1))"

text \<open>
  The whole string decoded: for each rune the offset of its first byte, the rune and
  its width, as \<open>range\<close> walks the string.
\<close>

fun decodeAll :: "nat \<Rightarrow> nat list \<Rightarrow> (nat \<times> rune \<times> nat) list" where
  "decodeAll i [] = []"
| "decodeAll i (b # bs) =
    (case decodeRune (b # bs) of
       (r, w) \<Rightarrow> (i, r, w) # decodeAll (i + w) (drop (w - 1) bs))"

definition decoded :: "string \<Rightarrow> (nat \<times> rune \<times> nat) list" where
  "decoded s = decodeAll 0 (map byte s)"

text \<open>\<open>[]rune(s)\<close>.\<close>

definition runes :: "string \<Rightarrow> rune list" where
  "runes s = map (\<lambda>(i, r, w). r) (decoded s)"

text \<open>\<open>for i, r := range s\<close>: the pairs of byte offset and rune.\<close>

definition rangeString :: "string \<Rightarrow> (nat \<times> rune) list" where
  "rangeString s = map (\<lambda>(i, r, w). (i, r)) (decoded s)"

text \<open>A string holds a multi-byte character when some rune of it is encoded on several bytes.\<close>

definition hasMultiByte :: "string \<Rightarrow> bool" where
  "hasMultiByte s = list_ex (\<lambda>(i, r, w). 1 < w) (decoded s)"

definition isASCII :: "string \<Rightarrow> bool" where
  "isASCII s = list_all (\<lambda>c. byte c < 0x80) s"

section \<open>Character classes of package unicode, on Latin-1\<close>

text \<open>
  The key handler converts one byte of the key's string to a rune, so the rune is below
  256 and \<open>unicode.IsLetter\<close>, \<open>IsPunct\<close>, \<open>IsSpace\<close> and \<open>IsNumber\<close> answer from
  the Latin-1 property table of the package. Above 255 the model answers False; the
  typing code never asks there, and the check of a username, which does, takes the
  answer above 255 as an argument.
\<close>

definition IsLetter :: "rune \<Rightarrow> bool" where
  "IsLetter r \<longleftrightarrow>
     (0x41 \<le> r \<and> r \<le> 0x5A) \<or> (0x61 \<le> r \<and> r \<le> 0x7A) \<or> r = 0xAA \<or> r = 0xB5 \<or> r = 0xBA
     \<or> (0xC0 \<le> r \<and> r \<le> 0xD6) \<or> (0xD8 \<le> r \<and> r \<le> 0xF6) \<or> (0xF8 \<le> r \<and> r \<le> 0xFF)"

definition IsNumber :: "rune \<Rightarrow> bool" where
  "IsNumber r \<longleftrightarrow>
     (0x30 \<le> r \<and> r \<le> 0x39) \<or> r = 0xB2 \<or> r = 0xB3 \<or> r = 0xB9
     \<or> (0xBC \<le> r \<and> r \<le> 0xBE)"

definition IsSpace :: "rune \<Rightarrow> bool" where
  "IsSpace r \<longleftrightarrow> (0x09 \<le> r \<and> r \<le> 0x0D) \<or> r = 0x20 \<or> r = 0x85 \<or> r = 0xA0"

definition IsPunct :: "rune \<Rightarrow> bool" where
  "IsPunct r \<longleftrightarrow>
     r \<in> set [0x21, 0x22, 0x23, 0x25, 0x26, 0x27, 0x28, 0x29, 0x2A, 0x2C, 0x2D, 0x2E, 0x2F,
              0x3A, 0x3B, 0x3F, 0x40, 0x5B, 0x5C, 0x5D, 0x5F, 0x7B, 0x7D,
              0xA1, 0xA7, 0xAB, 0xB6, 0xB7, 0xBB, 0xBF]"

section \<open>The typing session\<close>

text \<open>
  The Bubble Tea model of the terminal program, with the fields that the key message and
  the tick read and write. \<open>startTime\<close> and every clock reading are nanoseconds on the
  monotonic clock. \<open>leaderboardEntries\<close> is the field \<open>LeaderboardEntries\<close> of the
  model; it, \<open>currentPage\<close> and \<open>entriesPerPage\<close> belong to the newer program alone. The
  styles, the viewport size, the date, the countdown and the username input widget are
  left out: no branch modelled below reads them, except for the value of the widget,
  which the username prompt takes as an argument.
\<close>

record leaderboardEntry =
  entryUserID :: string
  entryUsername :: string
  entryWPM :: int

record model =
  hasUserAlreadyDoneDailyChallenge :: bool
  userSetUsername :: bool
  username :: string
  leaderboardEntries :: "leaderboardEntry list"
  currentPage :: int
  entriesPerPage :: int
  textToType :: string
  textUserTyped :: string
  WPM :: int
  startTime :: int
  didUserStartTyping :: bool
  userPublicKey :: string

text \<open>A run-time panic of the Go program: an index past the end of a slice, or an
  integer division by zero.\<close>

datatype panic = IndexOutOfRange | IntegerDivideByZero

text \<open>\<open>didUserFinishTyping\<close>: the byte length of the typed text against the rune count
  of the target, and the two strings equal.\<close>

definition didUserFinishTyping :: "model \<Rightarrow> bool" where
  "didUserFinishTyping m \<longleftrightarrow>
     length (textUserTyped m) = length (runes (textToType m))
     \<and> textUserTyped m = textToType m"

text \<open>The branch of \<open>Update\<close> for the key whose string is \<open>backspace\<close>.\<close>

definition backspaceBranch :: "model \<Rightarrow> model" where
  "backspaceBranch m =
    (let m1 = m\<lparr>didUserStartTyping := True\<rparr> in
     if length (textUserTyped m1) = 0 then m1
     else
       (let m2 = m1\<lparr>textUserTyped := take (length (textUserTyped m1) - 1) (textUserTyped m1)\<rparr> in
        if length (textUserTyped m2) > 0
           \<and> textUserTyped m2 ! (length (textUserTyped m2) - 1) = newline
        then m2\<lparr>textUserTyped := take (length (textUserTyped m2) - 1) (textUserTyped m2)\<rparr>
        else m2))"

text \<open>
  The branch of \<open>Update\<close> for a key whose string is one byte long; \<open>now\<close> is the clock
  reading of \<open>time.Now()\<close>. The target's rune at the index of the typed rune count is
  read without a bound check in the source, so the model panics where the slice is too
  short.
\<close>

definition characterBranch :: "model \<Rightarrow> string \<Rightarrow> int \<Rightarrow> panic + model" where
  "characterBranch m key now =
    (let m1 = m\<lparr>didUserStartTyping := True\<rparr>;
         r = byte (key ! 0)
     in
     if IsLetter r \<or> IsPunct r \<or> IsSpace r \<or> IsNumber r then
       (let m2 = (if length (textUserTyped m1) = 0 then m1\<lparr>startTime := now\<rparr> else m1) in
        if length (textUserTyped m2) < length (textToType m2) then
          (if length (runes (textUserTyped m2)) < length (runes (textToType m2)) then
             (let nextChar = runes (textToType m2) ! length (runes (textUserTyped m2)) in
              if nextChar = byte newline then
                (let m3 = m2\<lparr>textUserTyped := textUserTyped m2 @ [newline]\<rparr> in
                 if length (textUserTyped m3) < length (textToType m3)
                 then Inr (m3\<lparr>textUserTyped := textUserTyped m3 @ key\<rparr>)
                 else Inr m3)
              else Inr (m2\<lparr>textUserTyped := textUserTyped m2 @ key\<rparr>))
           else Inl IndexOutOfRange)
        else Inr m2)
     else Inr m1)"

text \<open>
  The typing code, the same text in both programs: the end of the \<open>tea.KeyMsg\<close> case of
  \<open>Update\<close>, from the test for \<open>backspace\<close> on. A key is given by its string
  (\<open>msg.String()\<close>). The whole case, with the branches that come before the typing code,
  is \<open>Update_KeyMsg\<close> below.
\<close>

definition typingKey :: "model \<Rightarrow> string \<Rightarrow> int \<Rightarrow> panic + model" where
  "typingKey m key now =
    (if key = ''backspace'' then Inr (backspaceBranch m)
     else if length key = 1 then characterBranch m key now
     else Inr m)"

text \<open>A sequence of key messages that reach the typing code, each with the clock reading
  at its arrival; a panic ends the run.\<close>

fun typingKeys :: "model \<Rightarrow> (string \<times> int) list \<Rightarrow> panic + model" where
  "typingKeys m [] = Inr m"
| "typingKeys m ((key, now) # ks) =
    (case typingKey m key now of Inl e \<Rightarrow> Inl e | Inr m' \<Rightarrow> typingKeys m' ks)"

section \<open>Rendering the typing test\<close>

text \<open>
  \<open>renderTypingTest\<close> writes the target text rune by rune, each rune in one of four
  styles, and a line-break of the target as it is. The model keeps the sequence of
  styled runes; the colours, the WPM line and the layout around the text are left out.
\<close>

datatype cell = CorrectStyle rune | IncorrectStyle rune | CurrentStyle rune | NormalStyle rune
  | RawNewline

fun renderLoop :: "rune list \<Rightarrow> nat \<Rightarrow> bool \<Rightarrow> bool \<Rightarrow> rune list \<Rightarrow> cell list" where
  "renderLoop typed i foundError highlightNextAsCurrent [] = []"
| "renderLoop typed i foundError highlightNextAsCurrent (char # rest) =
    (if char = byte newline then
       RawNewline # renderLoop typed (i + 1) foundError
                      (if i = length typed then True else highlightNextAsCurrent) rest
     else if highlightNextAsCurrent then
       CurrentStyle char # renderLoop typed (i + 1) foundError False rest
     else if i < length typed then
       (let typedChar = typed ! i in
        if foundError then
          IncorrectStyle char # renderLoop typed (i + 1) foundError highlightNextAsCurrent rest
        else if typedChar \<noteq> char then
          IncorrectStyle char # renderLoop typed (i + 1) True highlightNextAsCurrent rest
        else
          CorrectStyle typedChar # renderLoop typed (i + 1) foundError highlightNextAsCurrent rest)
     else if i = length typed then
       CurrentStyle char # renderLoop typed (i + 1) foundError highlightNextAsCurrent rest
     else
       NormalStyle char # renderLoop typed (i + 1) foundError highlightNextAsCurrent rest)"

definition renderTypingTest :: "model \<Rightarrow> cell list" where
  "renderTypingTest m =
     renderLoop (runes (textUserTyped m)) 0 False False (runes (textToType m))"

text \<open>
  The loop in closed form. \<open>errorBefore\<close> is the value of \<open>foundError\<close> when the loop
  reaches position \<open>k\<close>: a typed position before \<open>k\<close> that is no line-break of the
  target and differs from it. \<open>afterBreak\<close> is the value of \<open>highlightNextAsCurrent\<close>
  there: the position after the typed text and every position from it up to \<open>k\<close> hold
  line-breaks.
\<close>

definition errorBefore :: "rune list \<Rightarrow> rune list \<Rightarrow> nat \<Rightarrow> bool" where
  "errorBefore typed target k =
     list_ex (\<lambda>j. j < length typed \<and> target ! j \<noteq> byte newline \<and> typed ! j \<noteq> target ! j) [0..<k]"

definition afterBreak :: "rune list \<Rightarrow> rune list \<Rightarrow> nat \<Rightarrow> bool" where
  "afterBreak typed target k \<longleftrightarrow>
     length typed < k \<and> list_all (\<lambda>j. target ! j = byte newline) [length typed..<k]"

definition styleAt :: "rune list \<Rightarrow> rune list \<Rightarrow> nat \<Rightarrow> cell" where
  "styleAt typed target k =
     (if target ! k = byte newline then RawNewline
      else if afterBreak typed target k then CurrentStyle (target ! k)
      else if k < length typed then
        (if errorBefore typed target (Suc k) then IncorrectStyle (target ! k)
         else CorrectStyle (target ! k))
      else if k = length typed then CurrentStyle (target ! k)
      else NormalStyle (target ! k))"

text \<open>
  The classification in the words of the specification: a typed position is Incorrect
  from the first position on where typed and target differ and Correct before it, the
  position right after the typed text is Current, every later one Untyped.
\<close>

datatype charClass = Correct | Incorrect | Current | Untyped

definition specClassify :: "rune list \<Rightarrow> rune list \<Rightarrow> nat \<Rightarrow> charClass" where
  "specClassify typed target i =
     (if i < length typed then
        (if list_ex (\<lambda>j. typed ! j \<noteq> target ! j) [0..<Suc i] then Incorrect else Correct)
      else if i = length typed then Current
      else Untyped)"

fun classOf :: "cell \<Rightarrow> charClass option" where
  "classOf (CorrectStyle r) = Some Correct"
| "classOf (IncorrectStyle r) = Some Incorrect"
| "classOf (CurrentStyle r) = Some Current"
| "classOf (NormalStyle r) = Some Untyped"
| "classOf RawNewline = None"

text \<open>
  The handler accepts a one-byte key when the rune of its byte is a letter, a
  punctuation mark, white space or a number.
\<close>

definition accepted :: "string \<Rightarrow> bool" where
  "accepted key \<longleftrightarrow>
     (let r = byte (key ! 0) in IsLetter r \<or> IsPunct r \<or> IsSpace r \<or> IsNumber r)"

text \<open>
  The string of a Bubble Tea key message is the UTF-8 text of the runes typed, or the
  name of a special key: when it is one byte long, the byte is ASCII.
\<close>

definition validKey :: "string \<Rightarrow> bool" where
  "validKey key \<longleftrightarrow> (length key = 1 \<longrightarrow> isASCII key)"

text \<open>
  A session ready for typing: the model as \<open>NewModelWithStyles\<close> builds it, after the
  sentence has arrived and the username is set.
\<close>

definition newSession :: "string \<Rightarrow> model" where
  "newSession target =
     \<lparr>hasUserAlreadyDoneDailyChallenge = False, userSetUsername = True,
      username = ''player1'', leaderboardEntries = [], currentPage = 0, entriesPerPage = 10,
      textToType = target, textUserTyped = [], WPM = 0,
      startTime = 0, didUserStartTyping = False, userPublicKey = ''anonymous-10.0.0.1''\<rparr>"

section \<open>Floating point\<close>

text \<open>
  The tick computes the WPM in \<open>float64\<close>. A finite \<open>float64\<close> is modelled by the
  rational number it denotes, and every operation rounds its exact result to the nearest
  \<open>float64\<close>, a tie to the even mantissa (IEEE 754, 53 bits of precision). The model
  covers the normal range, where every value of the WPM computation lies: counts and
  durations are below \<open>2 ^ 63\<close>.
\<close>

text \<open>The number of binary digits of a positive integer.\<close>

function bitLength :: "int \<Rightarrow> int" where
  "bitLength n = (if n \<le> 0 then 0 else 1 + bitLength (n div 2))"
  by pat_completeness auto
termination
  by (relation "measure nat") auto

declare bitLength.simps [simp del]

definition pow2 :: "int \<Rightarrow> rat" where
  "pow2 e = (if 0 \<le> e then 2 ^ nat e else 1 / 2 ^ nat (- e))"

definition floorLog2 :: "rat \<Rightarrow> int" where
  "floorLog2 x =
     (if 1 \<le> x then bitLength \<lfloor>x\<rfloor> - 1
      else - bitLength (\<lceil>1 / x\<rceil> - 1))"

definition roundHalfEven :: "rat \<Rightarrow> int" where
  "roundHalfEven x =
     (let f = \<lfloor>x\<rfloor>; r = x - of_int f
      in if r < 1 / 2 then f else if 1 / 2 < r then f + 1 else if even f then f else f + 1)"

definition roundFloat64 :: "rat \<Rightarrow> rat" where
  "roundFloat64 x =
     (if x = 0 then 0
      else (let ulp = pow2 (floorLog2 \<bar>x\<bar> - 52)
            in sgn x * of_int (roundHalfEven (\<bar>x\<bar> / ulp)) * ulp))"

text \<open>
  \<open>time.Duration.Minutes\<close>: a duration is a count of nanoseconds; the whole minutes and
  the rest are converted apart and added. Go's integer division truncates toward zero.
\<close>

definition Minute :: int where
  "Minute = 60000000000"

definition quoTrunc :: "int \<Rightarrow> int \<Rightarrow> int" where
  "quoTrunc a b = sgn a * sgn b * (\<bar>a\<bar> div \<bar>b\<bar>)"

definition remTrunc :: "int \<Rightarrow> int \<Rightarrow> int" where
  "remTrunc a b = a - b * quoTrunc a b"

definition Minutes :: "int \<Rightarrow> rat" where
  "Minutes d =
     (let min = quoTrunc d Minute; nsec = remTrunc d Minute
      in roundFloat64 (roundFloat64 (of_int min)
           + roundFloat64 (roundFloat64 (of_int nsec) / 60000000000)))"

text \<open>
  The conversion \<open>int(f)\<close> cuts the fraction off. Where the value does not fit an
  \<open>int\<close>, or is a NaN or an infinity, Go leaves the result to the implementation:
  the model then answers \<open>None\<close>. \<open>wpmExpression\<close> is the expression
  \<open>int(float64(total) / 5.0 / minutes)\<close>; with \<open>minutes = 0\<close> the quotient is a NaN or
  an infinity.
\<close>

definition floatToInt :: "rat \<Rightarrow> int option" where
  "floatToInt q =
     (let t = (if 0 \<le> q then \<lfloor>q\<rfloor> else \<lceil>q\<rceil>)
      in if - (2 ^ 63) \<le> t \<and> t < 2 ^ 63 then Some t else None)"

definition wpmExpression :: "nat \<Rightarrow> rat \<Rightarrow> int option" where
  "wpmExpression correct minutes =
     (if minutes = 0 then None
      else floatToInt (roundFloat64 (roundFloat64 (roundFloat64 (of_nat correct) / 5) / minutes)))"

section \<open>The tick\<close>

text \<open>The commands \<open>Update\<close> returns from its tick branch.\<close>

datatype cmd = noCmd | tickCmd | submitSentenceCmd string string int

text \<open>
  The loop that counts the correct characters: it walks the typed text with \<open>range\<close>
  and compares the rune at byte offset \<open>i\<close> with the rune of the target at index \<open>i\<close>,
  after testing \<open>i\<close> against the byte length of the target; the index panics where the
  target has fewer runes than bytes.
\<close>

fun countCorrect :: "string \<Rightarrow> nat \<Rightarrow> (nat \<times> rune) list \<Rightarrow> panic + nat" where
  "countCorrect target totalCorrect [] = Inr totalCorrect"
| "countCorrect target totalCorrect ((i, char) # rest) =
     (if i < length target then
        (if i < length (runes target) then
           countCorrect target
             (if char = runes target ! i then totalCorrect + 1 else totalCorrect) rest
         else Inl IndexOutOfRange)
      else countCorrect target totalCorrect rest)"

text \<open>The end of the branch: the session is submitted once when it is finished.\<close>

definition tickReturn :: "model \<Rightarrow> model \<times> cmd" where
  "tickReturn m = (if \<not> hasUserAlreadyDoneDailyChallenge m then (m, tickCmd) else (m, noCmd))"

definition finishOrReturn :: "model \<Rightarrow> model \<times> cmd" where
  "finishOrReturn m =
     (if didUserFinishTyping m \<and> \<not> hasUserAlreadyDoneDailyChallenge m
      then (m\<lparr>hasUserAlreadyDoneDailyChallenge := True\<rparr>,
            submitSentenceCmd (userPublicKey m) (username m) (WPM m))
      else tickReturn m)"

text \<open>
  The value assigned to \<open>m.WPM\<close>; \<open>undef\<close> stands for what the platform's conversion
  yields where Go leaves it open (the smallest \<open>int64\<close> on amd64).
\<close>

definition convertedWPM :: "nat \<Rightarrow> rat \<Rightarrow> int \<Rightarrow> int" where
  "convertedWPM correct minutes undef =
     (case wpmExpression correct minutes of Some w \<Rightarrow> w | None \<Rightarrow> undef)"

text \<open>
  The tick branch of \<open>Update\<close> in the newer program (cmd/test/test-sentence.go). It
  reads the clock twice, for the test against zero and for the division; \<open>now1\<close> and
  \<open>now2\<close> are the two readings.
\<close>

definition tickBranch :: "model \<Rightarrow> int \<Rightarrow> int \<Rightarrow> int \<Rightarrow> panic + model \<times> cmd" where
  "tickBranch m now1 now2 undef =
     (if didUserStartTyping m then
        (case countCorrect (textToType m) 0 (rangeString (textUserTyped m)) of
           Inl e \<Rightarrow> Inl e
         | Inr totalCorrect \<Rightarrow>
             Inr (finishOrReturn
               (if 0 < Minutes (now1 - startTime m)
                then m\<lparr>WPM := convertedWPM totalCorrect (Minutes (now2 - startTime m)) undef\<rparr>
                else m)))
      else Inr (tickReturn m))"

text \<open>The tick branch of the older program (the second file of part_000): no test
  against zero, one reading of the clock.\<close>

definition tickBranch_old :: "model \<Rightarrow> int \<Rightarrow> int \<Rightarrow> panic + model \<times> cmd" where
  "tickBranch_old m now undef =
     (if didUserStartTyping m then
        (case countCorrect (textToType m) 0 (rangeString (textUserTyped m)) of
           Inl e \<Rightarrow> Inl e
         | Inr totalCorrect \<Rightarrow>
             Inr (finishOrReturn
               (m\<lparr>WPM := convertedWPM totalCorrect (Minutes (now - startTime m)) undef\<rparr>)))
      else Inr (tickReturn m))"

text \<open>Two sessions used as examples, seven and three characters typed of \<open>cat sat\<close>.\<close>

definition typedCatSat :: model where
  "typedCatSat = (newSession ''cat sat'')\<lparr>textUserTyped := ''cat sat'', didUserStartTyping := True\<rparr>"

definition typedCat :: model where
  "typedCat = (newSession ''cat sat'')\<lparr>textUserTyped := ''cat'', didUserStartTyping := True, WPM := 42\<rparr>"

section \<open>The key message\<close>

text \<open>
  The username prompt of \<open>Update\<close>. The text input widget belongs to the bubbles library
  and is not part of the model: \<open>inputValue\<close> is what \<open>m.usernameInput.Value()\<close> returns
  when the key arrives, and what the widget does with a key other than \<open>enter\<close> changes
  no field of the model. \<open>TrimSpace\<close> stands for \<open>strings.TrimSpace\<close>, and
  \<open>letterAbove255\<close> and \<open>numberAbove255\<close> for \<open>unicode.IsLetter\<close> and \<open>unicode.IsNumber\<close>
  on the runes above 255.
\<close>

record prompt =
  inputValue :: string
  TrimSpace :: "string \<Rightarrow> string"
  letterAbove255 :: "rune \<Rightarrow> bool"
  numberAbove255 :: "rune \<Rightarrow> bool"

text \<open>The key \<open>enter\<close> at the prompt of the newer program: six to twenty bytes, each rune a
  letter, a number, \<open>_\<close> or \<open>-\<close>.\<close>

definition usernameEnter :: "prompt \<Rightarrow> model \<Rightarrow> model" where
  "usernameEnter p m =
     (let userName = TrimSpace p (inputValue p) in
      if length userName \<ge> 6 \<and> length userName \<le> 20 then
        (let valid = list_all
               (\<lambda>(i, char).
                  \<not> (\<not> (if char < 256 then IsLetter char else letterAbove255 p char)
                     \<and> \<not> (if char < 256 then IsNumber char else numberAbove255 p char)
                     \<and> char \<noteq> 0x5F \<and> char \<noteq> 0x2D))
               (rangeString userName)
         in if valid then m\<lparr>username := userName, userSetUsername := True\<rparr> else m)
      else m)"

text \<open>The same key in the older program: six bytes or more.\<close>

definition usernameEnter_old :: "prompt \<Rightarrow> model \<Rightarrow> model" where
  "usernameEnter_old p m =
     (let userName = TrimSpace p (inputValue p) in
      if length userName \<ge> 6 then m\<lparr>username := userName, userSetUsername := True\<rparr> else m)"

text \<open>
  The case \<open>tea.KeyMsg\<close> of \<open>Update\<close> in the newer program. \<open>ctrl+c\<close> returns the model
  with the command \<open>tea.Quit\<close>; the model leaves the returned command out. When the
  challenge is done, the number of pages is computed, which panics for zero entries per
  page, and a page key moves the page and returns. Then comes the username prompt, taken
  as long as no username is set, and last the typing code; \<open>promptOrTyping\<close> is these
  two.
\<close>

definition promptOrTyping :: "prompt \<Rightarrow> model \<Rightarrow> string \<Rightarrow> int \<Rightarrow> panic + model" where
  "promptOrTyping p m key now =
     (if \<not> userSetUsername m
      then Inr (if key = ''enter'' then usernameEnter p m else m)
      else typingKey m key now)"

definition Update_KeyMsg :: "prompt \<Rightarrow> model \<Rightarrow> string \<Rightarrow> int \<Rightarrow> panic + model" where
  "Update_KeyMsg p m key now =
     (if key = ''ctrl+c'' then Inr m
      else if hasUserAlreadyDoneDailyChallenge m then
        (if entriesPerPage m = 0 then Inl IntegerDivideByZero
         else
           (let totalPages =
                  quoTrunc (int (length (leaderboardEntries m)) + entriesPerPage m - 1)
                    (entriesPerPage m);
                totalPages = (if totalPages = 0 then 1 else totalPages)
            in if key = ''left'' \<or> key = ''h'' then
                 Inr (if currentPage m > 0 then m\<lparr>currentPage := currentPage m - 1\<rparr> else m)
               else if key = ''right'' \<or> key = ''l'' then
                 Inr (if currentPage m < totalPages - 1
                      then m\<lparr>currentPage := currentPage m + 1\<rparr> else m)
               else if key = ''home'' \<or> key = ''g'' then Inr (m\<lparr>currentPage := 0\<rparr>)
               else if key = ''end'' \<or> key = ''G'' then Inr (m\<lparr>currentPage := totalPages - 1\<rparr>)
               else promptOrTyping p m key now))
      else promptOrTyping p m key now)"

text \<open>The same case in the older program, which has no pages.\<close>

definition Update_KeyMsg_old :: "prompt \<Rightarrow> model \<Rightarrow> string \<Rightarrow> int \<Rightarrow> panic + model" where
  "Update_KeyMsg_old p m key now =
     (if key = ''ctrl+c'' then Inr m
      else if \<not> userSetUsername m
      then Inr (if key = ''enter'' then usernameEnter_old p m else m)
      else typingKey m key now)"

text \<open>Two models agree on the fields of the typing test.\<close>

definition sameTyping :: "model \<Rightarrow> model \<Rightarrow> bool" where
  "sameTyping m1 m \<longleftrightarrow>
     textUserTyped m1 = textUserTyped m \<and> textToType m1 = textToType m
     \<and> didUserStartTyping m1 = didUserStartTyping m \<and> startTime m1 = startTime m
     \<and> WPM m1 = WPM m"

section \<open>The leaderboard store\<close>

text \<open>
  Package \<open>data\<close> exists twice in the repository, with the same exported functions:
  once over a Badger key-value store and once over a SQLite table. Both are modelled;
  the suffix of a function names its backend. Every function reads the date key from the
  clock (\<open>getCurrentDateID\<close>, \<open>time.Now().Format\<close>); in the model the date key is an
  argument. A stored value is JSON text written by these functions alone, so it is
  modelled by the value it encodes (user ids and names are taken to be valid UTF-8,
  which \<open>encoding/json\<close> writes and reads back unchanged). Failures of the disk and of the database driver are
  outside the model: a read fails only for a missing key or row, or a value of the other
  type.
\<close>

record LeaderBoardEntry =
  UserID :: string
  Username :: string
  EntryWPM :: int

record DBEntry =
  DateID :: string
  UserStats :: "LeaderBoardEntry list"

record LeaderBoardResponse =
  RespDateID :: string
  LeaderboardEntries :: "LeaderBoardEntry list"

text \<open>The errors the functions of the store return.\<close>

datatype storeError = KeyNotFound | UnmarshalTypeError | AlreadySubmitted | NoSentence
  | ErrNoRows | ConstraintFailed

subsection \<open>sort.Slice\<close>

text \<open>
  \<open>GetLeaderBoard\<close> sorts a copy of the entries with \<open>sort.Slice\<close> and the comparison
  \<open>entries[i].WPM > entries[j].WPM\<close>. The model of \<open>GetLeaderBoard\<close> takes the sorting
  function as an argument. The documentation of \<open>sort.Slice\<close> promises a sorted
  permutation for a comparison that is a strict weak order, and says that the sort is not
  guaranteed to be stable.
\<close>

type_synonym 'a sorter = "('a \<Rightarrow> 'a \<Rightarrow> bool) \<Rightarrow> 'a list \<Rightarrow> 'a list"

definition byWPM :: "LeaderBoardEntry \<Rightarrow> LeaderBoardEntry \<Rightarrow> bool" where
  "byWPM a b \<longleftrightarrow> EntryWPM a > EntryWPM b"


























































text \<open>
  What the insertion sort computes, on the reversed list: an element passes the elements
  it is less than and stops before the first one it is not less than.
\<close>

fun insertLeft :: "('a \<Rightarrow> 'a \<Rightarrow> bool) \<Rightarrow> 'a \<Rightarrow> 'a list \<Rightarrow> 'a list" where
  "insertLeft lt x [] = [x]"
| "insertLeft lt x (p # ps) = (if lt x p then p # insertLeft lt x ps else x # p # ps)"

subsection \<open>The Badger backend\<close>

text \<open>
  The store maps a key to JSON text: the sentence of a day under \<open>sentence:\<close> and the
  date, the record of a day under \<open>store:\<close> and the date. \<open>getValue\<close> decodes into the
  variable it is given, a \<open>DBEntry\<close> or a string; the model has one function for each.
\<close>

datatype jsonValue = JString string | JEntry DBEntry

type_synonym badger = "string \<rightharpoonup> jsonValue"

definition storePrefix :: string where "storePrefix = ''store:''"
definition sentencePrefix :: string where "sentencePrefix = ''sentence:''"

definition setValue :: "badger \<Rightarrow> string \<Rightarrow> jsonValue \<Rightarrow> badger" where
  "setValue db key v = db(key \<mapsto> v)"

definition getValueEntry :: "badger \<Rightarrow> string \<Rightarrow> storeError + DBEntry" where
  "getValueEntry db key =
     (case db key of
        None \<Rightarrow> Inl KeyNotFound
      | Some (JEntry e) \<Rightarrow> Inr e
      | Some (JString s) \<Rightarrow> Inl UnmarshalTypeError)"

definition getValueString :: "badger \<Rightarrow> string \<Rightarrow> storeError + string" where
  "getValueString db key =
     (case db key of
        None \<Rightarrow> Inl KeyNotFound
      | Some (JString s) \<Rightarrow> Inr s
      | Some (JEntry e) \<Rightarrow> Inl UnmarshalTypeError)"

text \<open>The loop \<open>for _, entry := range UserStats\<close> that looks for a user.\<close>

definition hasUser :: "string \<Rightarrow> LeaderBoardEntry list \<Rightarrow> bool" where
  "hasUser userID entries = list_ex (\<lambda>entry. UserID entry = userID) entries"

definition GetUserChallengeStatus_badger :: "badger \<Rightarrow> string \<Rightarrow> string \<Rightarrow> bool \<times> storeError option" where
  "GetUserChallengeStatus_badger db dateId userID =
     (case getValueEntry db (storePrefix @ dateId) of
        Inl err \<Rightarrow> (False, None)
      | Inr todayEntry \<Rightarrow> (hasUser userID (UserStats todayEntry), None))"

definition GetLeaderBoard_badger ::
  "LeaderBoardEntry sorter \<Rightarrow> badger \<Rightarrow> string \<Rightarrow> storeError + LeaderBoardResponse" where
  "GetLeaderBoard_badger sortSlice db dateId =
     (case getValueEntry db (storePrefix @ dateId) of
        Inl err \<Rightarrow> Inr \<lparr>RespDateID = dateId, LeaderboardEntries = []\<rparr>
      | Inr todayEntry \<Rightarrow>
          Inr \<lparr>RespDateID = dateId,
               LeaderboardEntries = sortSlice byWPM (UserStats todayEntry)\<rparr>)"

definition GetTodaysSentence_badger :: "badger \<Rightarrow> string \<Rightarrow> storeError + string" where
  "GetTodaysSentence_badger db dateId =
     (case getValueString db (sentencePrefix @ dateId) of
        Inl err \<Rightarrow> Inl NoSentence
      | Inr sentence \<Rightarrow> Inr sentence)"

definition SubmitSentence_badger ::
  "badger \<Rightarrow> string \<Rightarrow> string \<Rightarrow> string \<Rightarrow> int \<Rightarrow> storeError option \<times> badger" where
  "SubmitSentence_badger db dateId userID userName wpm =
     (let key = storePrefix @ dateId;
          todayEntry = (case getValueEntry db key of
                          Inl err \<Rightarrow> \<lparr>DateID = dateId, UserStats = []\<rparr>
                        | Inr e \<Rightarrow> e)
      in if hasUser userID (UserStats todayEntry) then (Some AlreadySubmitted, db)
         else (None, setValue db key
                 (JEntry (todayEntry\<lparr>UserStats := UserStats todayEntry @
                    [\<lparr>UserID = userID, Username = userName, EntryWPM = wpm\<rparr>]\<rparr>))))"

definition InsertSentence_badger :: "badger \<Rightarrow> string \<Rightarrow> string \<Rightarrow> storeError option \<times> badger" where
  "InsertSentence_badger db dateId sentence =
     (let sentenceKey = sentencePrefix @ dateId;
          storeKey = storePrefix @ dateId;
          db1 = setValue db sentenceKey (JString sentence)
      in case getValueEntry db1 storeKey of
           Inl err \<Rightarrow> (None, setValue db1 storeKey (JEntry \<lparr>DateID = dateId, UserStats = []\<rparr>))
         | Inr todayEntry \<Rightarrow> (None, db1))"

subsection \<open>The SQLite backend\<close>

text \<open>
  The table \<open>sentences\<close> has the primary key \<open>date_id\<close> and the columns \<open>sentence\<close>
  and \<open>value\<close>, the latter the JSON text of a \<open>DBEntry\<close>. \<open>SubmitSentence\<close> looks for
  the user and prints a line when it finds them, but goes on: the loop has no effect on
  the result.
\<close>

record sentencesRow =
  rowSentence :: string
  rowValue :: DBEntry

type_synonym sqlite = "string \<rightharpoonup> sentencesRow"

definition GetUserChallengeStatus_sqlite :: "sqlite \<Rightarrow> string \<Rightarrow> string \<Rightarrow> bool \<times> storeError option" where
  "GetUserChallengeStatus_sqlite db dateId userID =
     (case db dateId of
        None \<Rightarrow> (False, Some ErrNoRows)
      | Some row \<Rightarrow> (hasUser userID (UserStats (rowValue row)), None))"

definition GetLeaderBoard_sqlite ::
  "LeaderBoardEntry sorter \<Rightarrow> sqlite \<Rightarrow> string \<Rightarrow> storeError + LeaderBoardResponse" where
  "GetLeaderBoard_sqlite sortSlice db dateId =
     (case db dateId of
        None \<Rightarrow> Inl ErrNoRows
      | Some row \<Rightarrow>
          Inr \<lparr>RespDateID = dateId,
               LeaderboardEntries = sortSlice byWPM (UserStats (rowValue row))\<rparr>)"

definition GetTodaysSentence_sqlite :: "sqlite \<Rightarrow> string \<Rightarrow> storeError + string" where
  "GetTodaysSentence_sqlite db dateId =
     (case db dateId of None \<Rightarrow> Inl ErrNoRows | Some row \<Rightarrow> Inr (rowSentence row))"

definition SubmitSentence_sqlite ::
  "sqlite \<Rightarrow> string \<Rightarrow> string \<Rightarrow> string \<Rightarrow> int \<Rightarrow> storeError option \<times> sqlite" where
  "SubmitSentence_sqlite db dateId userID userName wpm =
     (case db dateId of
        None \<Rightarrow> (Some ErrNoRows, db)
      | Some row \<Rightarrow>
          (let unmarshalledValue = rowValue row;
               appended = unmarshalledValue\<lparr>UserStats := UserStats unmarshalledValue @
                  [\<lparr>UserID = userID, Username = userName, EntryWPM = wpm\<rparr>]\<rparr>
           in (None, db(dateId \<mapsto> row\<lparr>rowValue := appended\<rparr>))))"

definition InsertSentence_sqlite :: "sqlite \<Rightarrow> string \<Rightarrow> string \<Rightarrow> storeError option \<times> sqlite" where
  "InsertSentence_sqlite db dateId sentence =
     (case db dateId of
        Some row \<Rightarrow> (Some ConstraintFailed, db)
      | None \<Rightarrow>
          (None, db(dateId \<mapsto>
             \<lparr>rowSentence = sentence, rowValue = \<lparr>DateID = dateId, UserStats = []\<rparr>\<rparr>)))"

text \<open>The entries stored for a day, empty when the day has no record.\<close>

definition entries_badger :: "badger \<Rightarrow> string \<Rightarrow> LeaderBoardEntry list" where
  "entries_badger db dateId =
     (case getValueEntry db (storePrefix @ dateId) of Inl err \<Rightarrow> [] | Inr e \<Rightarrow> UserStats e)"

definition entries_sqlite :: "sqlite \<Rightarrow> string \<Rightarrow> LeaderBoardEntry list" where
  "entries_sqlite db dateId =
     (case db dateId of None \<Rightarrow> [] | Some row \<Rightarrow> UserStats (rowValue row))"

text \<open>Two days used as examples: a day with two equal scores, and a day with one entry.\<close>

definition twoTies :: badger where
  "twoTies =
     snd (SubmitSentence_badger
       (snd (SubmitSentence_badger
         (snd (InsertSentence_badger Map.empty ''2025-06-01'' ''the quick brown fox''))
         ''2025-06-01'' ''u1'' ''alice1'' 50))
       ''2025-06-01'' ''u2'' ''bobby2'' 50)"

definition dayWithEntry :: badger where
  "dayWithEntry =
     snd (SubmitSentence_badger
         (snd (InsertSentence_badger Map.empty ''2025-06-01'' ''the quick brown fox''))
         ''2025-06-01'' ''u1'' ''alice1'' 50)"




section \<open>Facts about UTF-8 decoding\<close>

lemma decodeRune_shape:
  "decodeRune (b # bs) = (r, w) \<Longrightarrow>
     w = 1 \<or> (w = 2 \<and> 1 \<le> length bs) \<or> (w = 3 \<and> 2 \<le> length bs) \<or> (w = 4 \<and> 3 \<le> length bs)"
  unfolding decodeRune.simps
  by (simp split: if_splits list.splits)

lemma decodeAll_Cons:
  "decodeRune (b # bs) = (r, w) \<Longrightarrow>
     decodeAll i (b # bs) = (i, r, w) # decodeAll (i + w) (drop (w - 1) bs)"
  by simp

lemma length_decodeAll_le: "length (decodeAll i bs) \<le> length bs"
proof (induction i bs rule: decodeAll.induct)
  case (1 i)
  then show ?case by simp
next
  case (2 i b bs)
  obtain r w where rw: "decodeRune (b # bs) = (r, w)" by (cases "decodeRune (b # bs)")
  from 2[OF rw[symmetric]] have "length (decodeAll (i + w) (drop (w - 1) bs)) \<le> length bs"
    by simp
  then show ?case unfolding decodeAll_Cons[OF rw] by simp
qed

lemma length_decodeAll_multi:
  "list_ex (\<lambda>(i, r, w). 1 < w) (decodeAll i bs) \<Longrightarrow> length (decodeAll i bs) < length bs"
proof (induction i bs rule: decodeAll.induct)
  case (1 i)
  then show ?case by simp
next
  case (2 i b bs)
  obtain r w where rw: "decodeRune (b # bs) = (r, w)" by (cases "decodeRune (b # bs)")
  have le: "length (decodeAll (i + w) (drop (w - 1) bs)) \<le> length (drop (w - 1) bs)"
    by (rule length_decodeAll_le)
  show ?case
  proof (cases "1 < w")
    case True
    with decodeRune_shape[OF rw] le show ?thesis
      unfolding decodeAll_Cons[OF rw] by auto
  next
    case False
    with "2.prems" have "list_ex (\<lambda>(i, r, w). 1 < w) (decodeAll (i + w) (drop (w - 1) bs))"
      unfolding decodeAll_Cons[OF rw] by simp
    from "2.IH"[OF rw[symmetric] this]
    show ?thesis unfolding decodeAll_Cons[OF rw] by simp
  qed
qed

lemma decodeAll_ascii:
  "\<forall>b \<in> set bs. b < 0x80 \<Longrightarrow> decodeAll i bs = map (\<lambda>(k, b). (k, b, 1)) (enumerate i bs)"
  by (induction bs arbitrary: i) simp_all

lemma runes_ascii: "isASCII s \<Longrightarrow> runes s = map byte s"
  by (simp add: runes_def decoded_def decodeAll_ascii isASCII_def list_all_iff comp_def case_prod_unfold)

lemma hasMultiByte_runes: "hasMultiByte s \<Longrightarrow> length (runes s) < length s"
  using length_decodeAll_multi[of 0 "map byte s"] by (simp add: hasMultiByte_def runes_def decoded_def)

lemma length_runes_le: "length (runes s) \<le> length s"
  using length_decodeAll_le[of 0 "map byte s"] by (simp add: runes_def decoded_def)

lemma hasMultiByte_not_ascii: "hasMultiByte s \<Longrightarrow> \<not> isASCII s"
  using hasMultiByte_runes[of s] runes_ascii[of s] by auto

section \<open>Backspace\<close>

lemma backspace_typed:
  "textUserTyped (backspaceBranch m) =
     (let s = textUserTyped m in
      if s = [] then []
      else if butlast s \<noteq> [] \<and> last (butlast s) = newline then butlast (butlast s)
      else butlast s)"
  by (auto simp: backspaceBranch_def Let_def butlast_conv_take last_conv_nth)

text \<open>
  C8. Backspace on an empty typed buffer leaves the buffer empty. On a buffer \<open>s @ [c]\<close>
  it removes the last byte \<open>c\<close>, and when the rest \<open>s\<close> is not empty and ends in a
  line-break it removes that line-break too. Nothing else of the session changes, but
  the flag \<open>didUserStartTyping\<close> is set.
\<close>

theorem C8_backspace:
  "backspaceBranch (m\<lparr>textUserTyped := []\<rparr>)
     = m\<lparr>textUserTyped := [], didUserStartTyping := True\<rparr>
   \<and> backspaceBranch (m\<lparr>textUserTyped := s @ [c]\<rparr>)
     = m\<lparr>textUserTyped := (if s \<noteq> [] \<and> last s = newline then butlast s else s),
         didUserStartTyping := True\<rparr>"
  by (auto simp: backspaceBranch_def Let_def butlast_conv_take last_conv_nth)

section \<open>Key handling\<close>

lemma characterBranch_rejected:
  "\<not> accepted key \<Longrightarrow> characterBranch m key now = Inr (m\<lparr>didUserStartTyping := True\<rparr>)"
  by (simp add: characterBranch_def accepted_def Let_def)

lemma characterBranch_full:
  assumes "\<not> length (textUserTyped m) < length (textToType m)"
  shows "characterBranch m key now =
     Inr (if accepted key \<and> textUserTyped m = []
          then m\<lparr>didUserStartTyping := True, startTime := now\<rparr>
          else m\<lparr>didUserStartTyping := True\<rparr>)"
proof (cases "accepted key")
  case True
  then have a: "IsLetter (byte (key ! 0)) \<or> IsPunct (byte (key ! 0)) \<or> IsSpace (byte (key ! 0)) \<or> IsNumber (byte (key ! 0))"
    by (simp add: accepted_def Let_def)
  show ?thesis using assms True
    unfolding characterBranch_def Let_def if_P[OF a]
    by (cases "textUserTyped m = []") simp_all
next
  case False
  then show ?thesis by (simp add: characterBranch_rejected)
qed

lemma characterBranch_shape:
  assumes "characterBranch m key now = Inr m'"
  shows "\<exists>suffix st. m' = m\<lparr>didUserStartTyping := True, startTime := st,
                              textUserTyped := textUserTyped m @ suffix\<rparr>
          \<and> (suffix = [] \<or> suffix = key \<or> suffix = [newline] \<or> suffix = newline # key)
          \<and> (suffix \<noteq> [] \<longrightarrow> length (textUserTyped m) < length (textToType m)
                \<and> (length key = 1 \<longrightarrow> length (textUserTyped m @ suffix) \<le> length (textToType m)))"
proof (cases "accepted key")
  case False
  with assms have "m' = m\<lparr>didUserStartTyping := True\<rparr>" by (simp add: characterBranch_rejected)
  then have "m' = m\<lparr>didUserStartTyping := True, startTime := startTime m, textUserTyped := textUserTyped m @ []\<rparr>"
    by simp
  then show ?thesis by blast
next
  case True
  then have a: "IsLetter (byte (key ! 0)) \<or> IsPunct (byte (key ! 0)) \<or> IsSpace (byte (key ! 0)) \<or> IsNumber (byte (key ! 0))"
    by (simp add: accepted_def Let_def)
  define st where "st = (if textUserTyped m = [] then now else startTime m)"
  define m2 where "m2 = m\<lparr>didUserStartTyping := True, startTime := st\<rparr>"
  have m2: "(if length (textUserTyped (m\<lparr>didUserStartTyping := True\<rparr>)) = 0
             then m\<lparr>didUserStartTyping := True\<rparr>\<lparr>startTime := now\<rparr> else m\<lparr>didUserStartTyping := True\<rparr>) = m2"
    by (simp add: m2_def st_def)
  have eq: "characterBranch m key now =
     (if length (textUserTyped m2) < length (textToType m2) then
          (if length (runes (textUserTyped m2)) < length (runes (textToType m2)) then
             (let nextChar = runes (textToType m2) ! length (runes (textUserTyped m2)) in
              if nextChar = byte newline then
                (let m3 = m2\<lparr>textUserTyped := textUserTyped m2 @ [newline]\<rparr> in
                 if length (textUserTyped m3) < length (textToType m3)
                 then Inr (m3\<lparr>textUserTyped := textUserTyped m3 @ key\<rparr>)
                 else Inr m3)
              else Inr (m2\<lparr>textUserTyped := textUserTyped m2 @ key\<rparr>))
           else Inl IndexOutOfRange)
        else Inr m2)"
    unfolding characterBranch_def Let_def if_P[OF a] m2 by simp
  have f: "textUserTyped m2 = textUserTyped m" "textToType m2 = textToType m"
    by (simp_all add: m2_def)
  consider (full) "m' = m2" "\<not> length (textUserTyped m) < length (textToType m)"
    | (nl) "m' = m2\<lparr>textUserTyped := textUserTyped m @ [newline]\<rparr>"
           "length (textUserTyped m) < length (textToType m)"
    | (nlkey) "m' = m2\<lparr>textUserTyped := textUserTyped m @ newline # key\<rparr>"
           "Suc (length (textUserTyped m)) < length (textToType m)"
    | (key) "m' = m2\<lparr>textUserTyped := textUserTyped m @ key\<rparr>"
           "length (textUserTyped m) < length (textToType m)"
    using assms unfolding eq Let_def
    by (auto split: if_splits simp: f)
  then show ?thesis
  proof cases
    case full
    then have "m' = m\<lparr>didUserStartTyping := True, startTime := st, textUserTyped := textUserTyped m @ []\<rparr>"
      by (simp add: m2_def)
    then show ?thesis by blast
  next
    case nl
    then have "m' = m\<lparr>didUserStartTyping := True, startTime := st, textUserTyped := textUserTyped m @ [newline]\<rparr>"
      by (simp add: m2_def)
    with nl(2) show ?thesis by force
  next
    case nlkey
    then have "m' = m\<lparr>didUserStartTyping := True, startTime := st, textUserTyped := textUserTyped m @ newline # key\<rparr>"
      by (simp add: m2_def)
    with nlkey(2) show ?thesis by force
  next
    case key
    then have "m' = m\<lparr>didUserStartTyping := True, startTime := st, textUserTyped := textUserTyped m @ key\<rparr>"
      by (simp add: m2_def)
    with key(2) show ?thesis by force
  qed
qed

lemma isASCII_append [simp]: "isASCII (xs @ ys) \<longleftrightarrow> isASCII xs \<and> isASCII ys"
  by (simp add: isASCII_def)

lemma isASCII_butlast: "isASCII xs \<Longrightarrow> isASCII (butlast xs)"
  by (auto simp: isASCII_def list_all_iff dest: in_set_butlastD)

lemma isASCII_Nil [simp]: "isASCII []"
  by (simp add: isASCII_def)

lemma isASCII_newline [simp]: "isASCII [newline]"
  by (simp add: isASCII_def newline_def byte_def)

lemma backspace_target [simp]: "textToType (backspaceBranch m) = textToType m"
  by (simp add: backspaceBranch_def Let_def)

lemma backspace_ascii: "isASCII (textUserTyped m) \<Longrightarrow> isASCII (textUserTyped (backspaceBranch m))"
  by (simp add: backspace_typed Let_def isASCII_butlast)

lemma backspace_length: "length (textUserTyped (backspaceBranch m)) \<le> length (textUserTyped m)"
  by (simp add: backspace_typed Let_def)

lemma typingKey_target: "typingKey m key now = Inr m' \<Longrightarrow> textToType m' = textToType m"
  by (auto simp: typingKey_def split: if_splits dest!: characterBranch_shape)

lemma typingKey_length:
  assumes "length (textUserTyped m) \<le> length (textToType m)" "typingKey m key now = Inr m'"
  shows "length (textUserTyped m') \<le> length (textToType m')"
proof -
  consider (bs) "key = ''backspace''" | (ch) "key \<noteq> ''backspace''" "length key = 1"
    | (other) "key \<noteq> ''backspace''" "length key \<noteq> 1" by blast
  then show ?thesis
  proof cases
    case bs
    with assms(2) have "m' = backspaceBranch m" by (simp add: typingKey_def)
    with assms(1) backspace_length[of m] show ?thesis by simp
  next
    case ch
    with assms(2) have "characterBranch m key now = Inr m'" by (simp add: typingKey_def)
    from characterBranch_shape[OF this] ch(2) assms(1) show ?thesis by auto
  next
    case other
    with assms show ?thesis by (simp add: typingKey_def)
  qed
qed

lemma typingKey_ascii:
  assumes "isASCII (textUserTyped m)" "validKey key" "typingKey m key now = Inr m'"
  shows "isASCII (textUserTyped m')"
proof -
  consider (bs) "key = ''backspace''" | (ch) "key \<noteq> ''backspace''" "length key = 1"
    | (other) "key \<noteq> ''backspace''" "length key \<noteq> 1" by blast
  then show ?thesis
  proof cases
    case bs
    with assms(3) have "m' = backspaceBranch m" by (simp add: typingKey_def)
    with assms(1) show ?thesis by (simp add: backspace_ascii)
  next
    case ch
    with assms(3) have "characterBranch m key now = Inr m'" by (simp add: typingKey_def)
    moreover from ch(2) assms(2) have "isASCII key" by (simp add: validKey_def)
    moreover have "isASCII (newline # key) = isASCII key" by (simp add: isASCII_def newline_def byte_def)
    ultimately show ?thesis using assms(1) by (auto dest!: characterBranch_shape)
  next
    case other
    with assms show ?thesis by (simp add: typingKey_def)
  qed
qed

lemma typingKey_append:
  assumes "key \<noteq> ''backspace''" "typingKey m key now = Inr m'"
  shows "\<exists>suffix. textUserTyped m' = textUserTyped m @ suffix"
proof (cases "length key = 1")
  case True
  with assms have "characterBranch m key now = Inr m'" by (simp add: typingKey_def)
  from characterBranch_shape[OF this] show ?thesis by auto
next
  case False
  with assms show ?thesis by (simp add: typingKey_def)
qed

lemma typingKeys_target: "typingKeys m ks = Inr m' \<Longrightarrow> textToType m' = textToType m"
proof (induction ks arbitrary: m)
  case Nil
  then show ?case by simp
next
  case (Cons k ks)
  obtain key now where k: "k = (key, now)" by (cases k)
  from Cons.prems obtain m1 where s: "typingKey m key now = Inr m1" "typingKeys m1 ks = Inr m'"
    by (auto simp: k split: sum.splits)
  from Cons.IH[OF s(2)] typingKey_target[OF s(1)] show ?case by simp
qed

lemma typingKeys_length:
  "length (textUserTyped m) \<le> length (textToType m) \<Longrightarrow> typingKeys m ks = Inr m' \<Longrightarrow>
     length (textUserTyped m') \<le> length (textToType m')"
proof (induction ks arbitrary: m)
  case Nil
  then show ?case by simp
next
  case (Cons k ks)
  obtain key now where k: "k = (key, now)" by (cases k)
  from Cons.prems obtain m1 where s: "typingKey m key now = Inr m1" "typingKeys m1 ks = Inr m'"
    by (auto simp: k split: sum.splits)
  from Cons.IH[OF typingKey_length[OF Cons.prems(1) s(1)] s(2)] show ?case .
qed

lemma typingKeys_ascii:
  "isASCII (textUserTyped m) \<Longrightarrow> \<forall>(key, now) \<in> set ks. validKey key \<Longrightarrow>
   typingKeys m ks = Inr m' \<Longrightarrow> isASCII (textUserTyped m')"
proof (induction ks arbitrary: m)
  case Nil
  then show ?case by simp
next
  case (Cons k ks)
  obtain key now where k: "k = (key, now)" by (cases k)
  from Cons.prems obtain m1 where s: "typingKey m key now = Inr m1" "typingKeys m1 ks = Inr m'"
    by (auto simp: k split: sum.splits)
  from Cons.prems(2) have v: "validKey key" "\<forall>(key, now) \<in> set ks. validKey key" by (auto simp: k)
  from Cons.IH[OF typingKey_ascii[OF Cons.prems(1) v(1) s(1)] v(2) s(2)] show ?case .
qed

lemma typingKeys_append:
  "\<forall>(key, now) \<in> set ks. key \<noteq> ''backspace'' \<Longrightarrow> typingKeys m ks = Inr m' \<Longrightarrow>
     \<exists>suffix. textUserTyped m' = textUserTyped m @ suffix"
proof (induction ks arbitrary: m)
  case Nil
  then show ?case by simp
next
  case (Cons k ks)
  obtain key now where k: "k = (key, now)" by (cases k)
  from Cons.prems obtain m1 where s: "typingKey m key now = Inr m1" "typingKeys m1 ks = Inr m'"
    by (auto simp: k split: sum.splits)
  from Cons.prems(1) have v: "key \<noteq> ''backspace''" "\<forall>(key, now) \<in> set ks. key \<noteq> ''backspace''" by (auto simp: k)
  from Cons.IH[OF v(2) s(2)] typingKey_append[OF v(1) s(1)] show ?case by auto
qed

lemma finish_iff_ascii:
  "isASCII (textUserTyped m) \<Longrightarrow> didUserFinishTyping m \<longleftrightarrow> textUserTyped m = textToType m"
  by (auto simp: didUserFinishTyping_def runes_ascii)

section \<open>Facts about rendering\<close>

lemma errorBefore_Suc:
  "errorBefore typed target (Suc k) \<longleftrightarrow>
     errorBefore typed target k \<or> (k < length typed \<and> target ! k \<noteq> byte newline \<and> typed ! k \<noteq> target ! k)"
  by (auto simp: errorBefore_def list_ex_iff less_Suc_eq)

lemma afterBreak_Suc:
  "afterBreak typed target (Suc k) \<longleftrightarrow>
     target ! k = byte newline \<and> (k = length typed \<or> afterBreak typed target k)"
  by (auto simp: afterBreak_def list_all_iff less_Suc_eq)

lemma afterBreak_less: "afterBreak typed target k \<Longrightarrow> length typed < k"
  by (simp add: afterBreak_def)

lemma renderLoop_styleAt:
  "renderLoop typed (length pre) (errorBefore typed (pre @ rest) (length pre))
       (afterBreak typed (pre @ rest) (length pre)) rest
     = map (styleAt typed (pre @ rest)) [length pre..<length (pre @ rest)]"
proof (induction rest arbitrary: pre)
  case Nil
  then show ?case by simp
next
  case (Cons char rest)
  let ?T = "pre @ char # rest"
  let ?i = "length pre"
  have T: "?T = (pre @ [char]) @ rest" by simp
  have at: "?T ! ?i = char" by simp
  have IH: "renderLoop typed (Suc ?i) (errorBefore typed ?T (Suc ?i)) (afterBreak typed ?T (Suc ?i)) rest
     = map (styleAt typed ?T) [Suc ?i..<length ?T]"
    using Cons.IH[of "pre @ [char]"] by simp
  have up: "[?i..<length ?T] = ?i # [Suc ?i..<length ?T]"
    by (rule upt_conv_Cons) simp
  have step: "renderLoop typed ?i (errorBefore typed ?T ?i) (afterBreak typed ?T ?i) (char # rest)
      = styleAt typed ?T ?i # renderLoop typed (Suc ?i) (errorBefore typed ?T (Suc ?i)) (afterBreak typed ?T (Suc ?i)) rest"
  proof (cases "char = byte newline")
    case True
    then show ?thesis
      by (simp add: errorBefore_Suc afterBreak_Suc styleAt_def at del: append.simps)
  next
    case nonl: False
    show ?thesis
    proof (cases "afterBreak typed ?T ?i")
      case True
      with nonl afterBreak_less[OF True] show ?thesis
        by (simp add: errorBefore_Suc afterBreak_Suc styleAt_def at del: append.simps)
    next
      case nohl: False
      show ?thesis
      proof (cases "?i < length typed")
        case True
        with nonl nohl show ?thesis
          by (simp add: errorBefore_Suc afterBreak_Suc styleAt_def at Let_def del: append.simps)
      next
        case notyped: False
        show ?thesis
        proof (cases "?i = length typed")
          case True
          with at have "?T ! length typed = char" by metis
          with True nonl nohl show ?thesis
            by (simp add: errorBefore_Suc afterBreak_Suc styleAt_def del: append.simps)
        next
          case False
          with notyped nonl nohl show ?thesis
            by (simp add: errorBefore_Suc afterBreak_Suc styleAt_def at del: append.simps)
        qed
      qed
    qed
  qed
  show ?case unfolding up list.map step IH ..
qed

lemma renderTypingTest_styleAt:
  "renderTypingTest m =
     map (styleAt (runes (textUserTyped m)) (runes (textToType m))) [0..<length (runes (textToType m))]"
  using renderLoop_styleAt[of "runes (textUserTyped m)" "[]" "runes (textToType m)"]
  by (simp add: renderTypingTest_def errorBefore_def afterBreak_def)

lemma classOf_styleAt:
  assumes "byte newline \<notin> set target" "k < length target"
  shows "classOf (styleAt typed target k) = Some (specClassify typed target k)"
proof -
  have nl: "\<And>j. j < length target \<Longrightarrow> target ! j \<noteq> byte newline"
    using assms(1) by (metis nth_mem)
  have ab: "\<not> afterBreak typed target k"
  proof
    assume a: "afterBreak typed target k"
    then have "length typed < k" by (simp add: afterBreak_def)
    with a have "target ! length typed = byte newline" by (simp add: afterBreak_def list_all_iff)
    moreover from \<open>length typed < k\<close> assms(2) have "length typed < length target" by simp
    ultimately show False using nl by blast
  qed
  have eb: "k < length typed \<Longrightarrow>
      errorBefore typed target (Suc k) = list_ex (\<lambda>j. typed ! j \<noteq> target ! j) [0..<Suc k]"
    using nl assms(2) by (auto simp: errorBefore_def list_ex_iff)
  show ?thesis
    using nl[OF assms(2)] ab eb by (simp add: styleAt_def specClassify_def)
qed

section \<open>Facts about the store\<close>



lemma length_insertLeft [simp]: "length (insertLeft lt x ps) = Suc (length ps)"
  by (induction ps) auto



lemma mset_insertLeft [simp]: "mset (insertLeft lt x ps) = add_mset x (mset ps)"
  by (induction ps) auto

lemma set_insertLeft [simp]: "set (insertLeft lt x ps) = insert x (set ps)"
  by (induction ps) auto













lemma keys_differ [simp]: "sentencePrefix @ d \<noteq> storePrefix @ d'" "storePrefix @ d' \<noteq> sentencePrefix @ d"
  by (simp_all add: sentencePrefix_def storePrefix_def)

lemma prefixes_differ [simp]: "sentencePrefix \<noteq> storePrefix" "storePrefix \<noteq> sentencePrefix"
  by (simp_all add: sentencePrefix_def storePrefix_def)

lemma storeKey_inj [simp]: "storePrefix @ d = storePrefix @ d' \<longleftrightarrow> d = d'"
  by simp

lemma SubmitSentence_badger_duplicate:
  "hasUser userID (entries_badger db dateId) \<Longrightarrow>
     SubmitSentence_badger db dateId userID userName wpm = (Some AlreadySubmitted, db)"
  by (auto simp: SubmitSentence_badger_def entries_badger_def Let_def hasUser_def split: sum.splits)

lemma SubmitSentence_badger_fresh:
  assumes "\<not> hasUser userID (entries_badger db dateId)"
  shows "fst (SubmitSentence_badger db dateId userID userName wpm) = None
    \<and> entries_badger (snd (SubmitSentence_badger db dateId userID userName wpm)) dateId
        = entries_badger db dateId @ [\<lparr>UserID = userID, Username = userName, EntryWPM = wpm\<rparr>]"
  using assms
  by (auto simp: SubmitSentence_badger_def entries_badger_def Let_def hasUser_def
        getValueEntry_def setValue_def split: sum.splits option.splits jsonValue.splits)

lemma SubmitSentence_badger_other_date:
  "d' \<noteq> dateId \<Longrightarrow>
   entries_badger (snd (SubmitSentence_badger db dateId userID userName wpm)) d' = entries_badger db d'"
  by (auto simp: SubmitSentence_badger_def entries_badger_def Let_def
        getValueEntry_def setValue_def split: sum.splits)

lemma SubmitSentence_badger_distinct:
  assumes "distinct (map UserID (entries_badger db d))"
  shows "distinct (map UserID (entries_badger (snd (SubmitSentence_badger db dateId userID userName wpm)) d))"
proof (cases "d = dateId")
  case False
  with assms show ?thesis by (simp add: SubmitSentence_badger_other_date)
next
  case True
  show ?thesis
  proof (cases "hasUser userID (entries_badger db dateId)")
    case dup: True
    with assms True show ?thesis by (simp add: SubmitSentence_badger_duplicate)
  next
    case False
    from SubmitSentence_badger_fresh[OF False] assms True False show ?thesis
      by (auto simp: hasUser_def list_ex_iff)
  qed
qed

lemma SubmitSentence_sqlite_appends:
  "sdb dateId = Some row \<Longrightarrow>
     fst (SubmitSentence_sqlite sdb dateId userID userName wpm) = None
     \<and> entries_sqlite (snd (SubmitSentence_sqlite sdb dateId userID userName wpm)) dateId
         = entries_sqlite sdb dateId @ [\<lparr>UserID = userID, Username = userName, EntryWPM = wpm\<rparr>]"
  by (simp add: SubmitSentence_sqlite_def entries_sqlite_def Let_def)

lemma reads_badger_missing:
  "db (storePrefix @ dateId) = None \<Longrightarrow>
     GetUserChallengeStatus_badger db dateId userID = (False, None)
     \<and> GetLeaderBoard_badger sortSlice db dateId
         = Inr \<lparr>RespDateID = dateId, LeaderboardEntries = []\<rparr>"
  by (simp add: GetUserChallengeStatus_badger_def GetLeaderBoard_badger_def getValueEntry_def)


section \<open>Facts about floating point and the tick\<close>

lemma pow2_pos: "0 < pow2 e"
  by (simp add: pow2_def)

lemma roundHalfEven_nonneg: "0 \<le> x \<Longrightarrow> 0 \<le> roundHalfEven x"
  by (simp add: roundHalfEven_def Let_def)

lemma roundFloat64_nonneg: "0 \<le> x \<Longrightarrow> 0 \<le> roundFloat64 x"
  by (simp add: roundFloat64_def Let_def roundHalfEven_nonneg pow2_pos less_imp_le)

lemma wpmExpression_nonneg:
  assumes "wpmExpression correct minutes = Some w" "0 < minutes"
  shows "0 \<le> w"
proof -
  let ?q = "roundFloat64 (roundFloat64 (roundFloat64 (of_nat correct) / 5) / minutes)"
  have "0 \<le> roundFloat64 (of_nat correct) / 5" by (simp add: roundFloat64_nonneg)
  then have "0 \<le> roundFloat64 (roundFloat64 (of_nat correct) / 5) / minutes"
    using assms(2) by (simp add: roundFloat64_nonneg)
  then have q: "0 \<le> ?q" by (rule roundFloat64_nonneg)
  from assms have "floatToInt ?q = Some w" by (simp add: wpmExpression_def)
  with q show ?thesis by (auto simp: floatToInt_def Let_def split: if_splits)
qed

lemma Minutes_zero: "Minutes 0 = 0"
  by (simp add: Minutes_def quoTrunc_def remTrunc_def roundFloat64_def)

lemma bitLength_nonpos: "n \<le> 0 \<Longrightarrow> bitLength n = 0"
  by (subst bitLength.simps) simp

lemma bitLength_unfold: "0 < n \<Longrightarrow> bitLength n = 1 + bitLength (n div 2)"
  by (subst bitLength.simps) simp

lemma bitLength_nonneg: "0 \<le> bitLength n"
proof (induction n rule: bitLength.induct)
  case (1 n)
  show ?case
  proof (cases "0 < n")
    case True
    with 1 have "0 \<le> bitLength (n div 2)" by simp
    then show ?thesis unfolding bitLength_unfold[OF True] by simp
  next
    case False
    then show ?thesis by (simp add: bitLength_nonpos)
  qed
qed

lemma bitLength_pos:
  assumes "0 < n"
  shows "1 \<le> bitLength n"
  using bitLength_nonneg[of "n div 2"] unfolding bitLength_unfold[OF assms] by simp

lemma bitLength_bounds:
  "0 < n \<Longrightarrow> 2 ^ nat (bitLength n - 1) \<le> n \<and> n < 2 ^ nat (bitLength n)"
proof (induction n rule: bitLength.induct)
  case (1 n)
  have unf: "bitLength n = 1 + bitLength (n div 2)" using 1(2) by (rule bitLength_unfold)
  show ?case
  proof (cases "0 < n div 2")
    case False
    with 1(2) have "n = 1" by (simp add: pos_imp_zdiv_pos_iff)
    then show ?thesis unfolding unf by (simp add: bitLength_nonpos)
  next
    case True
    let ?k = "bitLength (n div 2)"
    from 1(1) 1(2) True have IH: "2 ^ nat (?k - 1) \<le> n div 2" "n div 2 < 2 ^ nat ?k" by simp_all
    from bitLength_pos[OF True] have k: "1 \<le> ?k" .
    then have e: "nat ?k = Suc (nat (?k - 1))" by simp
    have lo: "(2::int) ^ nat ?k \<le> n"
    proof -
      have "(2::int) ^ nat ?k = 2 * 2 ^ nat (?k - 1)" by (subst e) simp
      also have "\<dots> \<le> 2 * (n div 2)" using IH(1) by simp
      also have "\<dots> \<le> n" by simp
      finally show ?thesis .
    qed
    have hi: "n < 2 ^ nat (1 + ?k)"
    proof -
      have "n < 2 * (n div 2) + 2" by presburger
      also have "\<dots> \<le> 2 * 2 ^ nat ?k" using IH(2) by simp
      also have "\<dots> = 2 ^ nat (1 + ?k)" using k by (simp add: nat_add_distrib)
      finally show ?thesis .
    qed
    from lo hi show ?thesis unfolding unf by simp
  qed
qed

lemma pow2_powi: "pow2 e = 2 powi e"
  by (simp add: pow2_def power_int_def power_inverse inverse_eq_divide power_one_over)

lemma pow2_add: "pow2 (a + b) = pow2 a * pow2 b"
  by (simp add: pow2_powi power_int_add)

lemma pow2_nat: "0 \<le> e \<Longrightarrow> pow2 e = 2 ^ nat e"
  by (simp add: pow2_def)

lemma floorLog2_le:
  assumes "0 < x"
  shows "pow2 (floorLog2 x) \<le> x"
proof (cases "1 \<le> x")
  case True
  then have f: "0 < \<lfloor>x\<rfloor>" by simp
  from bitLength_bounds[OF f] have "(2::int) ^ nat (bitLength \<lfloor>x\<rfloor> - 1) \<le> \<lfloor>x\<rfloor>" by simp
  then have "(of_int ((2::int) ^ nat (bitLength \<lfloor>x\<rfloor> - 1)) :: rat) \<le> of_int \<lfloor>x\<rfloor>"
    by (simp only: of_int_le_iff)
  also have "\<dots> \<le> x" by simp
  finally have "(2::rat) ^ nat (bitLength \<lfloor>x\<rfloor> - 1) \<le> x" by simp
  moreover from bitLength_pos[OF f] have "0 \<le> bitLength \<lfloor>x\<rfloor> - 1" by simp
  ultimately show ?thesis using True by (simp add: floorLog2_def pow2_nat)
next
  case False
  let ?c = "\<lceil>1 / x\<rceil> - 1"
  from False assms have "1 < 1 / x" by simp
  then have c: "0 < ?c" by linarith
  let ?k = "bitLength ?c"
  from bitLength_bounds[OF c] have "?c < 2 ^ nat ?k" by simp
  then have "\<lceil>1 / x\<rceil> \<le> 2 ^ nat ?k" by simp
  then have "1 / x \<le> of_int (2 ^ nat ?k)" by (simp only: ceiling_le_iff)
  then have "1 / x \<le> 2 ^ nat ?k" by simp
  with assms have "1 / 2 ^ nat ?k \<le> x"
    by (simp add: field_simps)
  moreover from bitLength_pos[OF c] have "\<not> 0 \<le> - ?k" by simp
  ultimately show ?thesis using False by (simp add: floorLog2_def pow2_def)
qed

lemma roundHalfEven_bounds:
  "x - 1 / 2 \<le> of_int (roundHalfEven x) \<and> (of_int (roundHalfEven x) :: rat) \<le> x + 1 / 2"
proof -
  define f where "f = \<lfloor>x\<rfloor>"
  have b: "of_int f \<le> x" "x < of_int f + 1" unfolding f_def by linarith+
  have "roundHalfEven x = f \<and> x - of_int f \<le> 1 / 2
      \<or> roundHalfEven x = f + 1 \<and> 1 / 2 \<le> x - of_int f"
    unfolding roundHalfEven_def Let_def f_def[symmetric] by auto
  with b show ?thesis by auto
qed

lemma roundFloat64_error:
  assumes "0 < x"
  shows "\<bar>roundFloat64 x - x\<bar> \<le> x / 2 ^ 53"
proof -
  let ?e = "floorLog2 x"
  let ?ulp = "pow2 (?e - 52)"
  have u: "0 < ?ulp" by (rule pow2_pos)
  have "pow2 ?e = pow2 (?e - 52) * pow2 52" using pow2_add[of "?e - 52" 52] by simp
  then have "?ulp * 2 ^ 52 \<le> x" using floorLog2_le[OF assms] by (simp add: pow2_def)
  then have half: "?ulp / 2 \<le> x / 2 ^ 53" by simp
  from assms have r: "roundFloat64 x = of_int (roundHalfEven (x / ?ulp)) * ?ulp"
    by (simp add: roundFloat64_def Let_def)
  from roundHalfEven_bounds[of "x / ?ulp"]
  have "\<bar>of_int (roundHalfEven (x / ?ulp)) - x / ?ulp\<bar> \<le> 1 / 2" by linarith
  then have "\<bar>of_int (roundHalfEven (x / ?ulp)) - x / ?ulp\<bar> * ?ulp \<le> 1 / 2 * ?ulp"
    using u by (simp only: mult_right_mono less_imp_le)
  moreover have "\<bar>of_int (roundHalfEven (x / ?ulp)) - x / ?ulp\<bar> * ?ulp = \<bar>roundFloat64 x - x\<bar>"
  proof -
    have "(of_int (roundHalfEven (x / ?ulp)) - x / ?ulp) * ?ulp = roundFloat64 x - x"
      using u unfolding r by (simp add: field_simps)
    then show ?thesis using u by (metis abs_mult_pos less_imp_le)
  qed
  ultimately have "\<bar>roundFloat64 x - x\<bar> \<le> ?ulp / 2" by simp
  with half show ?thesis by linarith
qed

lemma roundFloat64_pos: "0 < x \<Longrightarrow> 0 < roundFloat64 x"
proof -
  assume x: "0 < x"
  from roundFloat64_error[OF x] have "x - x / 2 ^ 53 \<le> roundFloat64 x" by linarith
  moreover from x have "0 < x - x / 2 ^ 53" by (simp add: field_simps)
  ultimately show ?thesis by linarith
qed

lemma roundFloat64_minus: "roundFloat64 (- x) = - roundFloat64 x"
  by (simp add: roundFloat64_def Let_def)

lemma roundFloat64_nonpos: "x \<le> 0 \<Longrightarrow> roundFloat64 x \<le> 0"
  using roundFloat64_nonneg[of "- x"] by (simp add: roundFloat64_minus)

lemma trunc_pos:
  assumes "0 < d"
  shows "quoTrunc d Minute = d div Minute" "remTrunc d Minute = d mod Minute"
proof -
  show q: "quoTrunc d Minute = d div Minute" using assms by (simp add: quoTrunc_def Minute_def)
  show "remTrunc d Minute = d mod Minute"
    unfolding remTrunc_def q by (simp add: minus_mult_div_eq_mod)
qed

lemma trunc_nonpos:
  assumes "d \<le> 0"
  shows "quoTrunc d Minute \<le> 0" "remTrunc d Minute \<le> 0"
proof -
  have q: "quoTrunc d Minute = - (\<bar>d\<bar> div Minute)"
    using assms by (cases "d = 0") (simp_all add: quoTrunc_def Minute_def)
  have "0 \<le> \<bar>d\<bar> div Minute" by (simp add: Minute_def pos_imp_zdiv_nonneg_iff)
  then show "quoTrunc d Minute \<le> 0" unfolding q by simp
  have "remTrunc d Minute = - (\<bar>d\<bar> - Minute * (\<bar>d\<bar> div Minute))"
    using assms unfolding remTrunc_def q by simp
  also have "\<dots> = - (\<bar>d\<bar> mod Minute)" by (simp add: minus_mult_div_eq_mod)
  also have "\<dots> \<le> 0" by (simp add: Minute_def)
  finally show "remTrunc d Minute \<le> 0" .
qed

lemma Minutes_nonpos: "d \<le> 0 \<Longrightarrow> Minutes d \<le> 0"
proof -
  assume d: "d \<le> 0"
  from trunc_nonpos[OF d] have a: "roundFloat64 (of_int (quoTrunc d Minute)) \<le> 0"
    and b: "roundFloat64 (of_int (remTrunc d Minute)) \<le> 0"
    by (simp_all add: roundFloat64_nonpos)
  from b have "roundFloat64 (of_int (remTrunc d Minute)) / 60000000000 \<le> 0"
    by (simp add: divide_le_0_iff)
  then have "roundFloat64 (roundFloat64 (of_int (remTrunc d Minute)) / 60000000000) \<le> 0"
    by (rule roundFloat64_nonpos)
  with a show ?thesis unfolding Minutes_def Let_def
    by (intro roundFloat64_nonpos) linarith
qed

lemma roundFloat64_half:
  assumes "0 \<le> x"
  shows "x / 2 \<le> roundFloat64 x \<and> roundFloat64 x \<le> 2 * x"
proof (cases "x = 0")
  case True
  then show ?thesis by (simp add: roundFloat64_def)
next
  case False
  with assms have x: "0 < x" by simp
  have "x / 2 ^ 53 \<le> x / 2" using x by (simp add: field_simps)
  with roundFloat64_error[OF x] show ?thesis by linarith
qed

lemma Minutes_lower:
  assumes "0 < d"
  shows "of_int d / 480000000000 \<le> Minutes d"
proof -
  let ?min = "d div Minute" and ?nsec = "d mod Minute"
  have mn: "0 \<le> ?min" "0 \<le> ?nsec" using assms by (simp_all add: Minute_def pos_imp_zdiv_nonneg_iff)
  have d: "of_int d = (of_int ?min :: rat) * 60000000000 + of_int ?nsec"
  proof -
    have "d = ?min * 60000000000 + ?nsec" by (simp add: Minute_def)
    then have "(of_int d :: rat) = of_int (?min * 60000000000 + ?nsec)" by (rule arg_cong)
    also have "\<dots> = (of_int ?min :: rat) * 60000000000 + of_int ?nsec"
      by (simp only: of_int_add of_int_mult of_int_numeral)
    finally show ?thesis .
  qed
  let ?a = "roundFloat64 (of_int ?min)"
  let ?n = "roundFloat64 (of_int ?nsec)"
  let ?b = "roundFloat64 (?n / 60000000000)"
  from mn have a: "of_int ?min / 2 \<le> ?a" using roundFloat64_half[of "of_int ?min"] by simp
  from mn have n: "of_int ?nsec / 2 \<le> ?n" using roundFloat64_half[of "of_int ?nsec"] by simp
  from mn have n0: "0 \<le> ?n" by (simp add: roundFloat64_nonneg)
  then have "?n / 60000000000 / 2 \<le> ?b" using roundFloat64_half[of "?n / 60000000000"] by simp
  with n have b: "of_int ?nsec / 240000000000 \<le> ?b" by linarith
  from mn n0 have s0: "0 \<le> ?a + ?b" by (simp add: roundFloat64_nonneg)
  then have "(?a + ?b) / 2 \<le> roundFloat64 (?a + ?b)" using roundFloat64_half by blast
  moreover have "of_int d / 480000000000 \<le> (?a + ?b) / 2"
    unfolding d using a b mn by (simp add: field_simps) 
  ultimately show ?thesis
    unfolding Minutes_def Let_def trunc_pos[OF assms] by linarith
qed

lemma Minutes_pos: "0 < d \<Longrightarrow> 0 < Minutes d"
proof -
  assume d: "0 < d"
  then have "0 < (of_int d :: rat) / 480000000000" by simp
  with Minutes_lower[OF d] show ?thesis by linarith
qed

lemma Minutes_pos_iff: "0 < Minutes d \<longleftrightarrow> 0 < d"
  using Minutes_pos[of d] Minutes_nonpos[of d] by (cases "0 < d") auto

lemma wpmExpression_defined:
  assumes "0 < d" "k < 2 ^ 23"
  shows "\<exists>w. wpmExpression k (Minutes d) = Some w \<and> 0 \<le> w"
proof -
  let ?m = "Minutes d"
  let ?x = "roundFloat64 (roundFloat64 (of_nat k) / 5)"
  let ?q = "roundFloat64 (?x / ?m)"
  have m: "0 < ?m" using assms(1) by (rule Minutes_pos)
  have ml: "1 / 480000000000 \<le> ?m"
  proof -
    from assms(1) have "(1::rat) \<le> of_int d" by simp
    then have "(1::rat) / 480000000000 \<le> of_int d / 480000000000" by simp
    with Minutes_lower[OF assms(1)] show ?thesis by linarith
  qed
  have k: "(of_nat k :: rat) < 2 ^ 23" using assms(2) by (metis of_nat_less_iff of_nat_numeral of_nat_power)
  have "roundFloat64 (of_nat k) \<le> 2 * of_nat k" using roundFloat64_half[of "of_nat k"] by simp
  then have f1: "roundFloat64 (of_nat k) / 5 \<le> 2 * of_nat k / 5" by simp
  have x0: "0 \<le> roundFloat64 (of_nat k) / 5" by (simp add: roundFloat64_nonneg)
  then have "?x \<le> 2 * (roundFloat64 (of_nat k) / 5)" using roundFloat64_half by blast
  with f1 have x: "?x \<le> 4 * of_nat k / 5" by linarith
  have xn: "0 \<le> ?x" using x0 by (rule roundFloat64_nonneg)
  have "?x / ?m \<le> ?x * 480000000000"
  proof -
    have "?x / ?m \<le> ?x / (1 / 480000000000)"
      using ml xn by (intro divide_left_mono) simp_all
    then show ?thesis by simp
  qed
  with x have d1: "?x / ?m \<le> 4 * of_nat k / 5 * 480000000000" by linarith
  have qn: "0 \<le> ?x / ?m" using xn m by simp
  then have "?q \<le> 2 * (?x / ?m)" using roundFloat64_half by blast
  with d1 have "?q \<le> 768000000000 * of_nat k" by linarith
  also have "\<dots> < 768000000000 * 2 ^ 23" using k by simp
  also have "\<dots> < 2 ^ 63" by simp
  finally have qu: "?q < 2 ^ 63" .
  have q0: "0 \<le> ?q" using qn by (rule roundFloat64_nonneg)
  then have fl0: "0 \<le> \<lfloor>?q\<rfloor>" by simp
  from qu have "\<lfloor>?q\<rfloor> < 2 ^ 63" by (simp add: floor_less_iff)
  with fl0 q0 m show ?thesis
    by (simp add: wpmExpression_def floatToInt_def Let_def)
qed

lemma countCorrect_le:
  "countCorrect target acc xs = Inr k \<Longrightarrow> k \<le> acc + length xs"
proof (induction xs arbitrary: acc)
  case Nil
  then show ?case by simp
next
  case (Cons p xs)
  obtain i char where p: "p = (i, char)" by (cases p)
  from Cons.prems consider
      (a) "countCorrect target (acc + 1) xs = Inr k"
    | (b) "countCorrect target acc xs = Inr k"
    unfolding p by (auto split: if_splits)
  then show ?case
  proof cases
    case a
    from Cons.IH[OF a] show ?thesis by simp
  next
    case b
    from Cons.IH[OF b] show ?thesis by simp
  qed
qed

lemma length_rangeString_le: "length (rangeString s) \<le> length s"
  using length_decodeAll_le[of 0 "map byte s"] by (simp add: rangeString_def decoded_def)

lemma rangeString_ascii: "isASCII s \<Longrightarrow> rangeString s = enumerate 0 (map byte s)"
proof -
  assume "isASCII s"
  then have "\<forall>b \<in> set (map byte s). b < 0x80" by (simp add: isASCII_def list_all_iff)
  from decodeAll_ascii[OF this, of 0] show ?thesis
    by (simp add: rangeString_def decoded_def comp_def case_prod_unfold)
qed

lemma countCorrect_enumerate:
  assumes "length (runes target) = length target"
  shows "countCorrect target acc (enumerate i bs) =
     Inr (acc + length (filter (\<lambda>(j, b). j < length target \<and> b = runes target ! j) (enumerate i bs)))"
proof (induction bs arbitrary: i acc)
  case Nil
  then show ?case by simp
next
  case (Cons b bs)
  show ?case using assms by (simp add: Cons.IH)
qed

lemma byte_eq_iff: "byte c = byte c' \<longleftrightarrow> c = c'"
  by (simp add: byte_def)

lemma enumerate_nth: "enumerate 0 xs = map (\<lambda>j. (j, xs ! j)) [0..<length xs]"
proof -
  have "enumerate 0 xs = enumerate 0 (map (nth xs) [0..<length xs])" by (simp add: map_nth)
  also have "\<dots> = map (\<lambda>j. (j, xs ! j)) [0..<length xs]" by (rule enumerate_map_upt)
  finally show ?thesis .
qed

lemma countCorrect_ascii:
  assumes "isASCII typed" "isASCII target"
  shows "countCorrect target 0 (rangeString typed) =
     Inr (length (filter (\<lambda>i. i < length target \<and> typed ! i = target ! i) [0..<length typed]))"
proof -
  have rt: "runes target = map byte target" using assms(2) by (rule runes_ascii)
  then have len: "length (runes target) = length target" by simp
  have "filter (\<lambda>(j, b). j < length target \<and> b = runes target ! j) (enumerate 0 (map byte typed))
      = map (\<lambda>j. (j, map byte typed ! j))
          (filter (\<lambda>j. j < length target \<and> typed ! j = target ! j) [0..<length typed])"
    unfolding enumerate_nth filter_map rt
    by (auto simp: comp_def byte_eq_iff intro!: arg_cong[where f="map _"] filter_cong)
  then show ?thesis
    unfolding rangeString_ascii[OF assms(1)] countCorrect_enumerate[OF len] by simp
qed

lemma tickReturn_model: "fst (tickReturn m) = m"
  by (simp add: tickReturn_def)

lemma finishOrReturn_WPM: "WPM (fst (finishOrReturn m)) = WPM m"
  by (simp add: finishOrReturn_def tickReturn_def)

section \<open>Evaluation on concrete sessions\<close>

lemmas eval_simps = typingKey_def characterBranch_def backspaceBranch_def newSession_def
  runes_def decoded_def byte_def newline_def isCont_def IsLetter_def IsPunct_def IsSpace_def IsNumber_def
  Let_def didUserFinishTyping_def validKey_def isASCII_def accepted_def hasMultiByte_def

lemmas store_simps = SubmitSentence_badger_def InsertSentence_badger_def GetLeaderBoard_badger_def
  GetUserChallengeStatus_badger_def GetTodaysSentence_badger_def getValueEntry_def getValueString_def
  setValue_def storePrefix_def sentencePrefix_def hasUser_def Let_def
  SubmitSentence_sqlite_def InsertSentence_sqlite_def GetLeaderBoard_sqlite_def
  GetUserChallengeStatus_sqlite_def GetTodaysSentence_sqlite_def entries_badger_def entries_sqlite_def
  byWPM_def



lemma twoTies_entries:
  "entries_badger twoTies ''2025-06-01'' =
     [\<lparr>UserID = ''u1'', Username = ''alice1'', EntryWPM = 50\<rparr>,
      \<lparr>UserID = ''u2'', Username = ''bobby2'', EntryWPM = 50\<rparr>]"
  by (simp add: twoTies_def store_simps)

lemmas tick_simps = tickBranch_def tickBranch_old_def finishOrReturn_def tickReturn_def
  convertedWPM_def

lemma wpm_cat_sat: "wpmExpression 7 (Minutes 6000000000) = Some 13"
  by code_simp

lemma wpm_cat: "wpmExpression 3 (Minutes 30000000000) = Some 1"
  by code_simp

lemma count_cat_sat: "countCorrect ''cat sat'' 0 (rangeString ''cat sat'') = Inr 7"
  by (simp add: eval_simps rangeString_def)

lemma count_cat: "countCorrect ''cat sat'' 0 (rangeString ''cat'') = Inr 3"
  by (simp add: eval_simps rangeString_def)

lemma wpm_zero: "wpmExpression 1 (Minutes 0) = None"
  by (simp add: Minutes_zero wpmExpression_def)

lemma tickBranch_old_unguarded:
  "tickBranch_old typedCat 0 (- 9223372036854775808)
     = Inr (typedCat\<lparr>WPM := - 9223372036854775808\<rparr>, tickCmd)"
  by (simp add: typedCat_def tick_simps eval_simps Minutes_zero wpmExpression_def count_cat)

lemma typingKey_other:
  "key \<noteq> ''backspace'' \<Longrightarrow> length key \<noteq> 1 \<Longrightarrow> typingKey m key now = Inr m"
  by (simp add: typingKey_def)

lemma typingKey_char:
  "length key = 1 \<Longrightarrow> typingKey m key now = characterBranch m key now"
  by (auto simp: typingKey_def)

section \<open>The key message and the typing code\<close>

text \<open>
  Once a username is set, and in the newer program as long as the challenge is not done,
  the key message is handled by the typing code. In every state the handling of a key
  either is that of the typing code or leaves the fields of the typing test as they are.
\<close>

lemma typingKey_ctrl_c: "typingKey m ''ctrl+c'' now = Inr m"
  by (simp add: typingKey_def)

lemma Update_KeyMsg_old_typing:
  "userSetUsername m \<Longrightarrow> Update_KeyMsg_old p m key now = typingKey m key now"
  by (simp add: Update_KeyMsg_old_def typingKey_ctrl_c)

lemma Update_KeyMsg_typing:
  "userSetUsername m \<Longrightarrow> \<not> hasUserAlreadyDoneDailyChallenge m \<Longrightarrow>
     Update_KeyMsg p m key now = typingKey m key now"
  by (simp add: Update_KeyMsg_def promptOrTyping_def typingKey_ctrl_c)

lemma usernameEnter_fields:
  "textUserTyped (usernameEnter p m) = textUserTyped m"
  "textToType (usernameEnter p m) = textToType m"
  "didUserStartTyping (usernameEnter p m) = didUserStartTyping m"
  "startTime (usernameEnter p m) = startTime m"
  "WPM (usernameEnter p m) = WPM m"
  "textUserTyped (usernameEnter_old p m) = textUserTyped m"
  "textToType (usernameEnter_old p m) = textToType m"
  "didUserStartTyping (usernameEnter_old p m) = didUserStartTyping m"
  "startTime (usernameEnter_old p m) = startTime m"
  "WPM (usernameEnter_old p m) = WPM m"
  by (simp_all add: usernameEnter_def usernameEnter_old_def Let_def)

lemma sameTyping_simps [simp]:
  "sameTyping m m"
  "sameTyping (usernameEnter p m) m"
  "sameTyping (usernameEnter_old p m) m"
  "sameTyping (m\<lparr>currentPage := c\<rparr>) m"
  by (simp_all add: sameTyping_def usernameEnter_fields)

lemma Update_KeyMsg_old_cases:
  assumes "Update_KeyMsg_old p m key now = Inr m1"
  shows "(userSetUsername m \<and> typingKey m key now = Inr m1) \<or> sameTyping m1 m"
proof (cases "key = ''ctrl+c''")
  case True
  with assms show ?thesis by (simp add: Update_KeyMsg_old_def)
next
  case False
  show ?thesis
  proof (cases "userSetUsername m")
    case True
    with assms show ?thesis by (simp add: Update_KeyMsg_old_typing)
  next
    case u: False
    with False assms have "m1 = (if key = ''enter'' then usernameEnter_old p m else m)"
      by (simp add: Update_KeyMsg_old_def)
    then show ?thesis by simp
  qed
qed

lemma promptOrTyping_cases:
  assumes "promptOrTyping p m key now = Inr m1"
  shows "(userSetUsername m \<and> typingKey m key now = Inr m1) \<or> sameTyping m1 m"
proof (cases "userSetUsername m")
  case True
  with assms show ?thesis by (simp add: promptOrTyping_def)
next
  case False
  with assms have "m1 = (if key = ''enter'' then usernameEnter p m else m)"
    by (simp add: promptOrTyping_def)
  then show ?thesis by simp
qed

lemma Update_KeyMsg_cases:
  assumes "Update_KeyMsg p m key now = Inr m1"
  shows "(userSetUsername m \<and> typingKey m key now = Inr m1) \<or> sameTyping m1 m"
proof -
  let ?t = "quoTrunc (int (length (leaderboardEntries m)) + entriesPerPage m - 1) (entriesPerPage m)"
  let ?total = "if ?t = 0 then 1 else ?t"
  consider (quit) "key = ''ctrl+c''"
    | (plain) "key \<noteq> ''ctrl+c''" "\<not> hasUserAlreadyDoneDailyChallenge m"
    | (zero) "key \<noteq> ''ctrl+c''" "hasUserAlreadyDoneDailyChallenge m" "entriesPerPage m = 0"
    | (left) "key \<noteq> ''ctrl+c''" "hasUserAlreadyDoneDailyChallenge m" "entriesPerPage m \<noteq> 0"
        "key = ''left'' \<or> key = ''h''"
    | (right) "key \<noteq> ''ctrl+c''" "hasUserAlreadyDoneDailyChallenge m" "entriesPerPage m \<noteq> 0"
        "\<not> (key = ''left'' \<or> key = ''h'')" "key = ''right'' \<or> key = ''l''"
    | (home) "key \<noteq> ''ctrl+c''" "hasUserAlreadyDoneDailyChallenge m" "entriesPerPage m \<noteq> 0"
        "\<not> (key = ''left'' \<or> key = ''h'')" "\<not> (key = ''right'' \<or> key = ''l'')"
        "key = ''home'' \<or> key = ''g''"
    | (end1) "key \<noteq> ''ctrl+c''" "hasUserAlreadyDoneDailyChallenge m" "entriesPerPage m \<noteq> 0"
        "\<not> (key = ''left'' \<or> key = ''h'')" "\<not> (key = ''right'' \<or> key = ''l'')"
        "\<not> (key = ''home'' \<or> key = ''g'')" "key = ''end'' \<or> key = ''G''"
    | (other) "key \<noteq> ''ctrl+c''" "hasUserAlreadyDoneDailyChallenge m" "entriesPerPage m \<noteq> 0"
        "\<not> (key = ''left'' \<or> key = ''h'')" "\<not> (key = ''right'' \<or> key = ''l'')"
        "\<not> (key = ''home'' \<or> key = ''g'')" "\<not> (key = ''end'' \<or> key = ''G'')"
    by blast
  then show ?thesis
  proof cases
    case quit
    with assms show ?thesis by (simp add: Update_KeyMsg_def)
  next
    case plain
    with assms have "promptOrTyping p m key now = Inr m1" by (simp add: Update_KeyMsg_def)
    then show ?thesis by (rule promptOrTyping_cases)
  next
    case zero
    with assms show ?thesis by (simp add: Update_KeyMsg_def)
  next
    case left
    then have "Update_KeyMsg p m key now
        = Inr (if currentPage m > 0 then m\<lparr>currentPage := currentPage m - 1\<rparr> else m)"
      unfolding Update_KeyMsg_def Let_def by (simp only: if_True if_False)
    with assms have "m1 = (if currentPage m > 0 then m\<lparr>currentPage := currentPage m - 1\<rparr> else m)"
      by simp
    then show ?thesis by simp
  next
    case right
    then have "Update_KeyMsg p m key now
        = Inr (if currentPage m < ?total - 1 then m\<lparr>currentPage := currentPage m + 1\<rparr> else m)"
      unfolding Update_KeyMsg_def Let_def by (simp only: if_True if_False)
    with assms have "m1 = (if currentPage m < ?total - 1 then m\<lparr>currentPage := currentPage m + 1\<rparr> else m)"
      by simp
    then show ?thesis by simp
  next
    case home
    then have "Update_KeyMsg p m key now = Inr (m\<lparr>currentPage := 0\<rparr>)"
      unfolding Update_KeyMsg_def Let_def by (simp only: if_True if_False)
    with assms have "m1 = m\<lparr>currentPage := 0\<rparr>" by simp
    then show ?thesis by simp
  next
    case end1
    then have "Update_KeyMsg p m key now = Inr (m\<lparr>currentPage := ?total - 1\<rparr>)"
      unfolding Update_KeyMsg_def Let_def by (simp only: if_True if_False)
    with assms have "m1 = m\<lparr>currentPage := ?total - 1\<rparr>" by simp
    then show ?thesis by simp
  next
    case other
    then have "Update_KeyMsg p m key now = promptOrTyping p m key now"
      unfolding Update_KeyMsg_def Let_def by (simp only: if_True if_False)
    with assms show ?thesis by (simp add: promptOrTyping_cases)
  qed
qed

lemma Update_KeyMsg_prompt:
  assumes "\<not> userSetUsername m"
    and "Update_KeyMsg p m key now = Inr m1 \<or> Update_KeyMsg_old p m key now = Inr m1"
  shows "sameTyping m1 m"
  using assms Update_KeyMsg_cases[of p m key now m1] Update_KeyMsg_old_cases[of p m key now m1]
  by blast

section \<open>Claims about the key handler\<close>

text \<open>
  C2. In a session that started with an empty buffer and received keys of Bubble Tea,
  \<open>didUserFinishTyping\<close> holds exactly when the typed text equals the target, byte for
  byte (so case and punctuation count). And a typed position that differs from the
  target keeps the session unfinished through every further run of keys without a
  backspace, since such keys only append.
\<close>

theorem C2_complete_iff_equal:
  assumes "textUserTyped m0 = []"
    and "\<forall>(key, now) \<in> set ks. validKey key"
    and "typingKeys m0 ks = Inr m"
  shows "(didUserFinishTyping m \<longleftrightarrow> textUserTyped m = textToType m)
    \<and> (\<forall>i ks' m'. i < length (textUserTyped m) \<and> i < length (textToType m)
          \<and> textUserTyped m ! i \<noteq> textToType m ! i
          \<and> (\<forall>(key, now) \<in> set ks'. key \<noteq> ''backspace'')
          \<and> typingKeys m ks' = Inr m'
        \<longrightarrow> \<not> didUserFinishTyping m')"
proof (intro conjI allI impI)
  from assms(1) have "isASCII (textUserTyped m0)" by (simp add: isASCII_def)
  from typingKeys_ascii[OF this assms(2,3)]
  show "didUserFinishTyping m \<longleftrightarrow> textUserTyped m = textToType m" by (rule finish_iff_ascii)
next
  fix i ks' m'
  assume a: "i < length (textUserTyped m) \<and> i < length (textToType m)
          \<and> textUserTyped m ! i \<noteq> textToType m ! i
          \<and> (\<forall>(key, now) \<in> set ks'. key \<noteq> ''backspace'')
          \<and> typingKeys m ks' = Inr m'"
  then obtain suffix where s: "textUserTyped m' = textUserTyped m @ suffix"
    using typingKeys_append by blast
  from a have t: "textToType m' = textToType m" using typingKeys_target by blast
  from a s have "textUserTyped m' ! i \<noteq> textToType m ! i" by (simp add: nth_append)
  with t have "textUserTyped m' \<noteq> textToType m'" by auto
  then show "\<not> didUserFinishTyping m'" by (simp add: didUserFinishTyping_def)
qed

theorem C2_witness:
  "typingKeys (newSession ''abc'') [(''a'', 10), (''d'', 20)]
     = Inr ((newSession ''abc'')\<lparr>textUserTyped := ''ad'', startTime := 10, didUserStartTyping := True\<rparr>)
   \<and> typingKeys ((newSession ''abc'')\<lparr>textUserTyped := ''ad'', startTime := 10, didUserStartTyping := True\<rparr>)
        [(''c'', 30), (''x'', 40)]
     = Inr ((newSession ''abc'')\<lparr>textUserTyped := ''adc'', startTime := 10, didUserStartTyping := True\<rparr>)
   \<and> \<not> didUserFinishTyping ((newSession ''abc'')\<lparr>textUserTyped := ''ad'', startTime := 10, didUserStartTyping := True\<rparr>)
   \<and> \<not> didUserFinishTyping ((newSession ''abc'')\<lparr>textUserTyped := ''adc'', startTime := 10, didUserStartTyping := True\<rparr>)"
proof -
  let ?s = "newSession ''abc''"
  let ?u = "?s\<lparr>textUserTyped := ''ad'', startTime := 10, didUserStartTyping := True\<rparr>"
  let ?t = "?s\<lparr>textUserTyped := ''adc'', startTime := 10, didUserStartTyping := True\<rparr>"
  have h1: "textUserTyped ?s = []" by (simp add: newSession_def)
  have h2: "\<forall>(key, now) \<in> set [(''a'', 10::int), (''d'', 20)]. validKey key"
    by (simp add: validKey_def isASCII_def byte_def)
  have h3: "typingKeys ?s [(''a'', 10), (''d'', 20)] = Inr ?u" by (simp add: eval_simps)
  have h4: "typingKeys ?u [(''c'', 30), (''x'', 40)] = Inr ?t" by (simp add: eval_simps)
  note C = C2_complete_iff_equal[OF h1 h2 h3]
  from C have a: "didUserFinishTyping ?u \<longleftrightarrow> textUserTyped ?u = textToType ?u" by blast
  from C have "1 < length (textUserTyped ?u) \<and> 1 < length (textToType ?u)
          \<and> textUserTyped ?u ! 1 \<noteq> textToType ?u ! 1
          \<and> (\<forall>(key, now) \<in> set [(''c'', 30::int), (''x'', 40)]. key \<noteq> ''backspace'')
          \<and> typingKeys ?u [(''c'', 30), (''x'', 40)] = Inr ?t
        \<longrightarrow> \<not> didUserFinishTyping ?t" by blast
  moreover have "1 < length (textUserTyped ?u) \<and> 1 < length (textToType ?u)
          \<and> textUserTyped ?u ! 1 \<noteq> textToType ?u ! 1
          \<and> (\<forall>(key, now) \<in> set [(''c'', 30::int), (''x'', 40)]. key \<noteq> ''backspace'')"
    by (simp add: newSession_def)
  ultimately have b: "\<not> didUserFinishTyping ?t" using h4 by blast
  from a have c: "\<not> didUserFinishTyping ?u" by (simp add: newSession_def)
  from h3 h4 b c show ?thesis by blast
qed

text \<open>
  C10. Only a key whose string is one byte long reaches the typed buffer (with the
  line-break the handler inserts itself), so under the keys of Bubble Tea the buffer
  stays ASCII. When the target holds a multi-byte character the buffer therefore never
  equals the target, and \<open>didUserFinishTyping\<close> is false after every run of keys.
\<close>

theorem C10_multibyte_never_complete:
  assumes "textUserTyped m0 = []"
    and "\<forall>(key, now) \<in> set ks. validKey key"
    and "typingKeys m0 ks = Inr m"
    and "hasMultiByte (textToType m0)"
  shows "isASCII (textUserTyped m) \<and> textUserTyped m \<noteq> textToType m \<and> \<not> didUserFinishTyping m"
proof -
  from assms(1) have "isASCII (textUserTyped m0)" by (simp add: isASCII_def)
  from typingKeys_ascii[OF this assms(2,3)] have a: "isASCII (textUserTyped m)" .
  from typingKeys_target[OF assms(3)] assms(4) have "hasMultiByte (textToType m)" by simp
  then have "\<not> isASCII (textToType m)" by (rule hasMultiByte_not_ascii)
  with a have "textUserTyped m \<noteq> textToType m" by auto
  with a show ?thesis by (simp add: didUserFinishTyping_def)
qed

theorem C10_witness:
  "hasMultiByte [CHR ''h'', CHR 0xC3, CHR 0xA9, CHR ''y'']
   \<and> typingKeys (newSession [CHR ''h'', CHR 0xC3, CHR 0xA9, CHR ''y'']) [(''h'', 10), (''e'', 20)]
       = Inr ((newSession [CHR ''h'', CHR 0xC3, CHR 0xA9, CHR ''y''])
               \<lparr>textUserTyped := ''he'', startTime := 10, didUserStartTyping := True\<rparr>)
   \<and> \<not> didUserFinishTyping ((newSession [CHR ''h'', CHR 0xC3, CHR 0xA9, CHR ''y''])
               \<lparr>textUserTyped := ''he'', startTime := 10, didUserStartTyping := True\<rparr>)"
proof -
  let ?target = "[CHR ''h'', CHR 0xC3, CHR 0xA9, CHR ''y'']"
  let ?s = "newSession ?target"
  let ?t = "?s\<lparr>textUserTyped := ''he'', startTime := 10, didUserStartTyping := True\<rparr>"
  have h1: "textUserTyped ?s = []" by (simp add: newSession_def)
  have h2: "\<forall>(key, now) \<in> set [(''h'', 10::int), (''e'', 20)]. validKey key"
    by (simp add: validKey_def isASCII_def byte_def)
  have h3: "typingKeys ?s [(''h'', 10), (''e'', 20)] = Inr ?t" by (simp add: eval_simps)
  have h4: "hasMultiByte (textToType ?s)" by (simp add: eval_simps)
  from C10_multibyte_never_complete[OF h1 h2 h3 h4] have "\<not> didUserFinishTyping ?t" by blast
  moreover from h4 have "hasMultiByte ?target" by (simp add: newSession_def)
  ultimately show ?thesis using h3 by blast
qed

text \<open>
  C7, as the code has it. A run of keys through the typing code keeps the typed buffer no
  longer than the target and leaves the target alone, and so does every key message in
  every state, in both programs. Once a username is set (and, in the newer program, the
  challenge is not done): a one-byte key that arrives when the buffer is as long as the
  target leaves the buffer alone, but it sets \<open>didUserStartTyping\<close>, and when it is
  accepted and the buffer is empty it also restarts the clock; a one-byte key that is not
  accepted changes nothing but \<open>didUserStartTyping\<close>, which it sets; any other key but
  backspace changes nothing at all. As long as no username is set, no key touches the
  typed buffer, \<open>didUserStartTyping\<close> or the clock.
\<close>

theorem C7_typed_never_longer:
  "(length (textUserTyped m) \<le> length (textToType m) \<and> typingKeys m ks = Inr m2
      \<longrightarrow> length (textUserTyped m2) \<le> length (textToType m2) \<and> textToType m2 = textToType m)
   \<and> (length (textUserTyped m) \<le> length (textToType m)
       \<and> (Update_KeyMsg p m key now = Inr m1 \<or> Update_KeyMsg_old p m key now = Inr m1)
      \<longrightarrow> length (textUserTyped m1) \<le> length (textToType m1) \<and> textToType m1 = textToType m)
   \<and> (userSetUsername m \<and> length key = 1 \<and> length (textUserTyped m) = length (textToType m)
      \<longrightarrow> Update_KeyMsg_old p m key now =
            Inr (if accepted key \<and> textUserTyped m = []
                 then m\<lparr>didUserStartTyping := True, startTime := now\<rparr>
                 else m\<lparr>didUserStartTyping := True\<rparr>)
          \<and> (\<not> hasUserAlreadyDoneDailyChallenge m \<longrightarrow>
              Update_KeyMsg p m key now =
                Inr (if accepted key \<and> textUserTyped m = []
                     then m\<lparr>didUserStartTyping := True, startTime := now\<rparr>
                     else m\<lparr>didUserStartTyping := True\<rparr>)))
   \<and> (userSetUsername m \<and> length key = 1 \<and> \<not> accepted key
      \<longrightarrow> Update_KeyMsg_old p m key now = Inr (m\<lparr>didUserStartTyping := True\<rparr>)
          \<and> (\<not> hasUserAlreadyDoneDailyChallenge m \<longrightarrow>
              Update_KeyMsg p m key now = Inr (m\<lparr>didUserStartTyping := True\<rparr>)))
   \<and> (userSetUsername m \<and> key \<noteq> ''backspace'' \<and> length key \<noteq> 1
      \<longrightarrow> Update_KeyMsg_old p m key now = Inr m
          \<and> (\<not> hasUserAlreadyDoneDailyChallenge m \<longrightarrow> Update_KeyMsg p m key now = Inr m))
   \<and> (\<not> userSetUsername m
       \<and> (Update_KeyMsg p m key now = Inr m1 \<or> Update_KeyMsg_old p m key now = Inr m1)
      \<longrightarrow> textUserTyped m1 = textUserTyped m \<and> didUserStartTyping m1 = didUserStartTyping m
          \<and> startTime m1 = startTime m)"
proof (intro conjI impI)
  assume "length (textUserTyped m) \<le> length (textToType m) \<and> typingKeys m ks = Inr m2"
  then show "length (textUserTyped m2) \<le> length (textToType m2)" "textToType m2 = textToType m"
    using typingKeys_length typingKeys_target by blast+
next
  assume a: "length (textUserTyped m) \<le> length (textToType m)
       \<and> (Update_KeyMsg p m key now = Inr m1 \<or> Update_KeyMsg_old p m key now = Inr m1)"
  then have c: "typingKey m key now = Inr m1
     \<or> (textUserTyped m1 = textUserTyped m \<and> textToType m1 = textToType m)"
    using Update_KeyMsg_cases[of p m key now m1] Update_KeyMsg_old_cases[of p m key now m1]
    unfolding sameTyping_def by blast
  with a show "length (textUserTyped m1) \<le> length (textToType m1)"
    using typingKey_length[of m key now m1] by auto
  from c show "textToType m1 = textToType m"
    using typingKey_target[of m key now m1] by auto
next
  assume a: "userSetUsername m \<and> length key = 1 \<and> length (textUserTyped m) = length (textToType m)"
  then have u: "userSetUsername m" by simp
  from a have t: "typingKey m key now =
            Inr (if accepted key \<and> textUserTyped m = []
                 then m\<lparr>didUserStartTyping := True, startTime := now\<rparr>
                 else m\<lparr>didUserStartTyping := True\<rparr>)"
    using characterBranch_full[of m key now] by (simp add: typingKey_char)
  show "Update_KeyMsg_old p m key now =
            Inr (if accepted key \<and> textUserTyped m = []
                 then m\<lparr>didUserStartTyping := True, startTime := now\<rparr>
                 else m\<lparr>didUserStartTyping := True\<rparr>)"
    unfolding Update_KeyMsg_old_typing[OF u] by (rule t)
  assume h: "\<not> hasUserAlreadyDoneDailyChallenge m"
  show "Update_KeyMsg p m key now =
            Inr (if accepted key \<and> textUserTyped m = []
                 then m\<lparr>didUserStartTyping := True, startTime := now\<rparr>
                 else m\<lparr>didUserStartTyping := True\<rparr>)"
    unfolding Update_KeyMsg_typing[OF u h] by (rule t)
next
  assume a: "userSetUsername m \<and> length key = 1 \<and> \<not> accepted key"
  then have u: "userSetUsername m" by simp
  from a have t: "typingKey m key now = Inr (m\<lparr>didUserStartTyping := True\<rparr>)"
    by (simp add: typingKey_char characterBranch_rejected)
  show "Update_KeyMsg_old p m key now = Inr (m\<lparr>didUserStartTyping := True\<rparr>)"
    unfolding Update_KeyMsg_old_typing[OF u] by (rule t)
  assume h: "\<not> hasUserAlreadyDoneDailyChallenge m"
  show "Update_KeyMsg p m key now = Inr (m\<lparr>didUserStartTyping := True\<rparr>)"
    unfolding Update_KeyMsg_typing[OF u h] by (rule t)
next
  assume a: "userSetUsername m \<and> key \<noteq> ''backspace'' \<and> length key \<noteq> 1"
  then have u: "userSetUsername m" by simp
  from a have t: "typingKey m key now = Inr m" by (simp add: typingKey_other)
  show "Update_KeyMsg_old p m key now = Inr m"
    unfolding Update_KeyMsg_old_typing[OF u] by (rule t)
  assume h: "\<not> hasUserAlreadyDoneDailyChallenge m"
  show "Update_KeyMsg p m key now = Inr m"
    unfolding Update_KeyMsg_typing[OF u h] by (rule t)
next
  assume a: "\<not> userSetUsername m
       \<and> (Update_KeyMsg p m key now = Inr m1 \<or> Update_KeyMsg_old p m key now = Inr m1)"
  then show "textUserTyped m1 = textUserTyped m" "didUserStartTyping m1 = didUserStartTyping m"
    "startTime m1 = startTime m"
    using Update_KeyMsg_prompt[of m p key now m1] unfolding sameTyping_def by blast+
qed

theorem C7_witness:
  "typingKeys (newSession ''ab'') [(''a'', 10), (''b'', 20), (''c'', 30), (''backspace'', 40), (''$'', 50), (''enter'', 60)]
     = Inr ((newSession ''ab'')\<lparr>textUserTyped := ''a'', startTime := 10, didUserStartTyping := True\<rparr>)
   \<and> (\<forall>p. Update_KeyMsg p ((newSession ''ab'')\<lparr>textUserTyped := ''ab'', startTime := 10, didUserStartTyping := True\<rparr>) ''c'' 30
          = Inr ((newSession ''ab'')\<lparr>textUserTyped := ''ab'', startTime := 10, didUserStartTyping := True\<rparr>)
        \<and> Update_KeyMsg_old p ((newSession ''ab'')\<lparr>textUserTyped := ''ab'', startTime := 10, didUserStartTyping := True\<rparr>) ''c'' 30
          = Inr ((newSession ''ab'')\<lparr>textUserTyped := ''ab'', startTime := 10, didUserStartTyping := True\<rparr>))
   \<and> (\<forall>p. Update_KeyMsg p (newSession ''ab'') ''$'' 50 = Inr ((newSession ''ab'')\<lparr>didUserStartTyping := True\<rparr>)
        \<and> Update_KeyMsg_old p (newSession ''ab'') ''$'' 50 = Inr ((newSession ''ab'')\<lparr>didUserStartTyping := True\<rparr>))
   \<and> (\<forall>p. Update_KeyMsg p (newSession ''ab'') ''enter'' 60 = Inr (newSession ''ab'')
        \<and> Update_KeyMsg_old p (newSession ''ab'') ''enter'' 60 = Inr (newSession ''ab''))
   \<and> (\<forall>p. Update_KeyMsg p ((newSession ''ab'')\<lparr>userSetUsername := False\<rparr>) ''a'' 10
          = Inr ((newSession ''ab'')\<lparr>userSetUsername := False\<rparr>)
        \<and> Update_KeyMsg_old p ((newSession ''ab'')\<lparr>userSetUsername := False\<rparr>) ''a'' 10
          = Inr ((newSession ''ab'')\<lparr>userSetUsername := False\<rparr>))"
proof -
  let ?s = "newSession ''ab''"
  let ?ks = "[(''a'', 10), (''b'', 20), (''c'', 30), (''backspace'', 40), (''$'', 50), (''enter'', 60)]"
  let ?t = "?s\<lparr>textUserTyped := ''a'', startTime := 10, didUserStartTyping := True\<rparr>"
  let ?u = "?s\<lparr>textUserTyped := ''ab'', startTime := 10, didUserStartTyping := True\<rparr>"
  let ?q = "?s\<lparr>userSetUsername := False\<rparr>"
  have run: "typingKeys ?s ?ks = Inr ?t" by (simp add: eval_simps)
  have len: "length (textUserTyped ?s) \<le> length (textToType ?s)" by (simp add: newSession_def)
  have a: "length (textUserTyped ?t) \<le> length (textToType ?t)"
    using C7_typed_never_longer[where m = ?s and ks = ?ks and ?m2.0 = ?t] run len by blast
  have b: "Update_KeyMsg p ?u ''c'' 30 = Inr ?u \<and> Update_KeyMsg_old p ?u ''c'' 30 = Inr ?u" for p
    using C7_typed_never_longer[where m = ?u and key = "''c''" and now = 30 and p = p]
    by (simp add: newSession_def)
  have c: "Update_KeyMsg p ?s ''$'' 50 = Inr (?s\<lparr>didUserStartTyping := True\<rparr>)
      \<and> Update_KeyMsg_old p ?s ''$'' 50 = Inr (?s\<lparr>didUserStartTyping := True\<rparr>)" for p
    using C7_typed_never_longer[where m = ?s and key = "''$''" and now = 50 and p = p]
    by (simp add: eval_simps)
  have d: "Update_KeyMsg p ?s ''enter'' 60 = Inr ?s \<and> Update_KeyMsg_old p ?s ''enter'' 60 = Inr ?s" for p
    using C7_typed_never_longer[where m = ?s and key = "''enter''" and now = 60 and p = p]
    by (simp add: newSession_def)
  have e: "Update_KeyMsg p ?q ''a'' 10 = Inr ?q \<and> Update_KeyMsg_old p ?q ''a'' 10 = Inr ?q" for p
    by (simp add: Update_KeyMsg_def Update_KeyMsg_old_def promptOrTyping_def newSession_def)
  from run b c d e show ?thesis by blast
qed

text \<open>
  C7 as stated fails: the key \<open>$\<close> is no letter, number, punctuation mark or white
  space for package unicode, and in a fresh session of the typing test it is not a no-op:
  it sets \<open>didUserStartTyping\<close>, after which every tick runs the finish check.
\<close>

theorem C7_counterexample:
  "\<not> accepted ''$''
   \<and> (\<forall>p. Update_KeyMsg p (newSession ''abc'') ''$'' 10
          = Inr ((newSession ''abc'')\<lparr>didUserStartTyping := True\<rparr>))
   \<and> (\<forall>p. Update_KeyMsg_old p (newSession ''abc'') ''$'' 10
          = Inr ((newSession ''abc'')\<lparr>didUserStartTyping := True\<rparr>))
   \<and> (newSession ''abc'')\<lparr>didUserStartTyping := True\<rparr> \<noteq> newSession ''abc''"
  by (simp add: eval_simps Update_KeyMsg_def Update_KeyMsg_old_def promptOrTyping_def)

section \<open>Claims about the tick\<close>

text \<open>
  C4, as the newer program has it. A tick that finds no time elapsed since the start
  leaves the WPM as it was. A tick of a started session that finds time elapsed sets the
  WPM to the integer part of \<open>float64(correct) / 5.0 / minutes\<close>, computed in
  \<open>float64\<close>, where \<open>correct\<close> is the count of the loop. With a clock that does not
  run backwards and a typed text below \<open>2 ^ 23\<close> bytes the WPM stays non-negative.
  For ASCII texts the loop counts the positions of the typed text, inside the target,
  where typed and target agree.
\<close>

theorem C4_tick:
  assumes "tickBranch m now1 now2 undef = Inr (m', c)"
  shows "(now1 - startTime m \<le> 0 \<longrightarrow> WPM m' = WPM m)
    \<and> (0 < now1 - startTime m \<and> didUserStartTyping m \<longrightarrow>
         (\<exists>k. countCorrect (textToType m) 0 (rangeString (textUserTyped m)) = Inr k
            \<and> WPM m' = convertedWPM k (Minutes (now2 - startTime m)) undef))
    \<and> (0 \<le> WPM m \<and> now1 \<le> now2 \<and> length (textUserTyped m) < 2 ^ 23 \<longrightarrow> 0 \<le> WPM m')
    \<and> (isASCII (textUserTyped m) \<and> isASCII (textToType m) \<longrightarrow>
         countCorrect (textToType m) 0 (rangeString (textUserTyped m)) =
           Inr (length (filter (\<lambda>i. i < length (textToType m)
                                  \<and> textUserTyped m ! i = textToType m ! i)
                          [0..<length (textUserTyped m)])))"
proof (cases "didUserStartTyping m")
  case False
  with assms have "m' = m" by (auto simp: tickBranch_def tickReturn_def split: if_splits)
  with False show ?thesis by (simp add: countCorrect_ascii)
next
  case True
  with assms obtain k where k: "countCorrect (textToType m) 0 (rangeString (textUserTyped m)) = Inr k"
    and m': "m' = fst (finishOrReturn
               (if 0 < Minutes (now1 - startTime m)
                then m\<lparr>WPM := convertedWPM k (Minutes (now2 - startTime m)) undef\<rparr>
                else m))"
    by (auto simp: tickBranch_def split: sum.splits)
  have w: "WPM m' = (if 0 < now1 - startTime m
                     then convertedWPM k (Minutes (now2 - startTime m)) undef else WPM m)"
    unfolding m' finishOrReturn_WPM by (simp add: Minutes_pos_iff)
  have nonneg: "0 \<le> WPM m'" if h: "0 \<le> WPM m" "now1 \<le> now2" "length (textUserTyped m) < 2 ^ 23"
  proof (cases "0 < now1 - startTime m")
    case False
    with w h(1) show ?thesis by simp
  next
    case pos: True
    with h(2) have d: "0 < now2 - startTime m" by simp
    from countCorrect_le[OF k] length_rangeString_le[of "textUserTyped m"] h(3)
    have "k < 2 ^ 23" by simp
    from wpmExpression_defined[OF d this] pos w show ?thesis
      by (auto simp: convertedWPM_def)
  qed
  from w k nonneg show ?thesis by (auto simp: countCorrect_ascii)
qed

theorem C4_witness:
  "tickBranch typedCat 30000000000 30000000000 (- 9223372036854775808)
     = Inr (typedCat\<lparr>WPM := 1\<rparr>, tickCmd)
   \<and> 0 \<le> WPM (typedCat\<lparr>WPM := 1\<rparr>)
   \<and> tickBranch typedCat 0 0 (- 9223372036854775808) = Inr (typedCat, tickCmd)
   \<and> WPM typedCat = 42
   \<and> countCorrect (textToType typedCat) 0 (rangeString (textUserTyped typedCat)) = Inr 3"
proof -
  let ?u = "- 9223372036854775808 :: int"
  have p: "0 < Minutes (30000000000 - 0)" by (simp add: Minutes_pos)
  have r1: "tickBranch typedCat 30000000000 30000000000 ?u = Inr (typedCat\<lparr>WPM := 1\<rparr>, tickCmd)"
    using p by (simp add: typedCat_def tick_simps eval_simps wpm_cat count_cat)
  have r0: "tickBranch typedCat 0 0 ?u = Inr (typedCat, tickCmd)"
    by (simp add: typedCat_def tick_simps eval_simps Minutes_zero count_cat)
  have h: "0 \<le> WPM typedCat \<and> (30000000000::int) \<le> 30000000000
      \<and> length (textUserTyped typedCat) < 2 ^ 23"
    by (simp add: typedCat_def newSession_def)
  have a: "isASCII (textUserTyped typedCat) \<and> isASCII (textToType typedCat)"
    by (simp add: typedCat_def eval_simps)
  from C4_tick[OF r1] h have n: "0 \<le> WPM (typedCat\<lparr>WPM := 1\<rparr>)" by blast
  from C4_tick[OF r0] have "WPM typedCat = WPM typedCat" by blast
  from C4_tick[OF r1] a
  have "countCorrect (textToType typedCat) 0 (rangeString (textUserTyped typedCat)) =
           Inr (length (filter (\<lambda>i. i < length (textToType typedCat)
                                  \<and> textUserTyped typedCat ! i = textToType typedCat ! i)
                          [0..<length (textUserTyped typedCat)]))" by blast
  then have c: "countCorrect (textToType typedCat) 0 (rangeString (textUserTyped typedCat)) = Inr 3"
    by (simp add: typedCat_def newSession_def upt_rec)
  have w: "WPM typedCat = 42" by (simp add: typedCat_def)
  from r1 n r0 w c show ?thesis by blast
qed

text \<open>
  C4 as stated fails: the WPM is not the floor of the exact quotient. Seven correct
  characters after exactly six seconds give 13: \<open>7 / 5\<close> and \<open>6 / 60\<close> are rounded to
  \<open>float64\<close> and their quotient lies below 14, while \<open>7 / 5 / (1 / 10)\<close> is 14.
\<close>

theorem C4_counterexample:
  "tickBranch typedCatSat 6000000000 6000000000 (- 9223372036854775808)
     = Inr (typedCatSat\<lparr>WPM := 13, hasUserAlreadyDoneDailyChallenge := True\<rparr>,
            submitSentenceCmd ''anonymous-10.0.0.1'' ''player1'' 13)
   \<and> countCorrect (textToType typedCatSat) 0 (rangeString (textUserTyped typedCatSat)) = Inr 7
   \<and> \<lfloor>(7 :: rat) / 5 / (6000000000 / 60000000000)\<rfloor> = 14"
proof -
  have "0 < Minutes (6000000000 - 0)" by (simp add: Minutes_pos)
  then show ?thesis
    by (simp add: typedCatSat_def tick_simps eval_simps wpm_cat_sat count_cat_sat)
qed

section \<open>Claims about the store\<close>

text \<open>
  C1 holds on the Badger backend: a submission for a user who has an entry is refused
  and leaves the store as it was, a submission for a new user appends one entry, and
  the user ids of a day stay distinct (\<open>SubmitSentence_badger_duplicate\<close>,
  \<open>SubmitSentence_badger_fresh\<close>, \<open>SubmitSentence_badger_distinct\<close>). The SQLite backend
  breaks it: a second submission of user \<open>u1\<close> returns no error and appends a second
  entry for \<open>u1\<close>.
\<close>

theorem C1_sqlite_appends_duplicate:
  "SubmitSentence_sqlite
     [''2025-06-01'' \<mapsto> \<lparr>rowSentence = ''the quick brown fox'',
        rowValue = \<lparr>DateID = ''2025-06-01'',
          UserStats = [\<lparr>UserID = ''u1'', Username = ''alice1'', EntryWPM = 50\<rparr>]\<rparr>\<rparr>]
     ''2025-06-01'' ''u1'' ''alice1'' 70
   = (None,
      [''2025-06-01'' \<mapsto> \<lparr>rowSentence = ''the quick brown fox'',
        rowValue = \<lparr>DateID = ''2025-06-01'',
          UserStats = [\<lparr>UserID = ''u1'', Username = ''alice1'', EntryWPM = 50\<rparr>,
                       \<lparr>UserID = ''u1'', Username = ''alice1'', EntryWPM = 70\<rparr>]\<rparr>\<rparr>])"
  by (simp add: SubmitSentence_sqlite_def Let_def)

text \<open>
  C5 holds on the Badger backend: for a date without a record both reads answer with the
  default and no error (\<open>reads_badger_missing\<close>). The SQLite backend breaks it: on a
  table without a row for the date \<open>GetUserChallengeStatus\<close> returns false with the error
  of the missing row, and \<open>GetLeaderBoard\<close> returns that error and no response.
\<close>

theorem C5_sqlite_reads_fail:
  "GetUserChallengeStatus_sqlite Map.empty ''2025-06-01'' ''u1'' = (False, Some ErrNoRows)
   \<and> GetLeaderBoard_sqlite sortSlice Map.empty ''2025-06-01'' = Inl ErrNoRows"
  by (simp add: GetUserChallengeStatus_sqlite_def GetLeaderBoard_sqlite_def)




text \<open>
  \<open>InsertSentence\<close> never replaces or empties an existing record of the day: the Badger
  backend keeps the record, the SQLite backend refuses the insert on the primary key and
  changes nothing. On the Badger backend the sentence of the day is, after every call,
  the sentence of that call.
\<close>

lemma InsertSentence_keeps_record:
  "GetTodaysSentence_badger (snd (InsertSentence_badger db dateId sentence)) dateId = Inr sentence
   \<and> (getValueEntry db (storePrefix @ dateId) = Inr e \<longrightarrow>
        getValueEntry (snd (InsertSentence_badger db dateId sentence)) (storePrefix @ dateId) = Inr e)
   \<and> (sdb dateId = Some row \<longrightarrow>
        InsertSentence_sqlite sdb dateId sentence = (Some ConstraintFailed, sdb))"
  by (auto simp: InsertSentence_badger_def GetTodaysSentence_badger_def getValueEntry_def
      getValueString_def setValue_def Let_def InsertSentence_sqlite_def
      split: option.splits jsonValue.splits sum.splits)

text \<open>
  C6 holds on the SQLite backend, where a second insert for a date is refused, and fails
  on the Badger backend: a day has the sentence \<open>the quick brown fox\<close> and one entry;
  \<open>InsertSentence\<close> with \<open>a lazy dog\<close> for the same day keeps the entry and replaces
  the sentence.
\<close>

theorem C6_badger_replaces_sentence:
  "GetTodaysSentence_badger dayWithEntry ''2025-06-01'' = Inr ''the quick brown fox''
   \<and> entries_badger dayWithEntry ''2025-06-01'' =
        [\<lparr>UserID = ''u1'', Username = ''alice1'', EntryWPM = 50\<rparr>]
   \<and> GetTodaysSentence_badger
        (snd (InsertSentence_badger dayWithEntry ''2025-06-01'' ''a lazy dog'')) ''2025-06-01''
      = Inr ''a lazy dog''"
  by (simp add: dayWithEntry_def store_simps)

section \<open>Claims about rendering\<close>

text \<open>
  C9, as the code has it. The rendering gives position \<open>k\<close> of the target the style
  \<open>styleAt\<close>: a line-break is written unstyled and takes no part in the search for
  the first error; when the position right after the typed text is a line-break, the
  first character after the line-breaks is Current; everything else is as the
  specification says. In particular, for a target without line-breaks the rendering is
  the classification of the specification: Correct up to the first typed position that
  differs, Incorrect for every typed position from there on, Current right after the
  typed text, Untyped beyond.
\<close>

theorem C9_classification:
  "renderTypingTest m =
     map (styleAt (runes (textUserTyped m)) (runes (textToType m)))
       [0..<length (runes (textToType m))]
   \<and> (byte newline \<notin> set (runes (textToType m)) \<longrightarrow>
        map classOf (renderTypingTest m) =
          map (\<lambda>i. Some (specClassify (runes (textUserTyped m)) (runes (textToType m)) i))
            [0..<length (runes (textToType m))])"
proof (intro conjI impI)
  show "renderTypingTest m =
     map (styleAt (runes (textUserTyped m)) (runes (textToType m)))
       [0..<length (runes (textToType m))]"
    by (rule renderTypingTest_styleAt)
next
  assume "byte newline \<notin> set (runes (textToType m))"
  then show "map classOf (renderTypingTest m) =
          map (\<lambda>i. Some (specClassify (runes (textUserTyped m)) (runes (textToType m)) i))
            [0..<length (runes (textToType m))]"
    unfolding renderTypingTest_styleAt by (simp add: classOf_styleAt)
qed

theorem C9_witness:
  "map classOf (renderTypingTest ((newSession ''abc'')\<lparr>textUserTyped := ''abd''\<rparr>))
     = [Some Correct, Some Correct, Some Incorrect]
   \<and> map classOf (renderTypingTest ((newSession ''abcde'')\<lparr>textUserTyped := ''axc''\<rparr>))
     = [Some Correct, Some Incorrect, Some Incorrect, Some Current, Some Untyped]"
proof -
  let ?s = "(newSession ''abc'')\<lparr>textUserTyped := ''abd''\<rparr>"
  let ?t = "(newSession ''abcde'')\<lparr>textUserTyped := ''axc''\<rparr>"
  have a: "byte newline \<notin> set (runes (textToType ?s))" by (simp add: eval_simps)
  have b: "byte newline \<notin> set (runes (textToType ?t))" by (simp add: eval_simps)
  have u3: "[0..<3] = [0, 1, 2]" "[0..<5] = [0, 1, 2, 3, 4]" by (simp_all add: upt_rec)
  from C9_classification[of ?s, THEN conjunct2, rule_format, OF a]
  have "map classOf (renderTypingTest ?s) = [Some Correct, Some Correct, Some Incorrect]"
    by (simp add: eval_simps specClassify_def u3 upt_rec)
  moreover from C9_classification[of ?t, THEN conjunct2, rule_format, OF b]
  have "map classOf (renderTypingTest ?t)
     = [Some Correct, Some Incorrect, Some Incorrect, Some Current, Some Untyped]"
    by (simp add: eval_simps specClassify_def u3 upt_rec)
  ultimately show ?thesis by blast
qed

text \<open>
  C9 as stated fails on a target with a line-break: for the target \<open>a\<close>, line-break,
  \<open>b\<close> and the typed text \<open>a\<close>, the position right after the typed text is the
  line-break, which gets no style, and the later position of \<open>b\<close> is Current, where
  the specification has Current and Untyped.
\<close>

theorem C9_counterexample:
  "map classOf (renderTypingTest ((newSession [CHR ''a'', newline, CHR ''b''])\<lparr>textUserTyped := ''a''\<rparr>))
     = [Some Correct, None, Some Current]
   \<and> map (specClassify (runes ''a'') (runes [CHR ''a'', newline, CHR ''b''])) [0, 1, 2]
     = [Correct, Current, Untyped]
   \<and> map classOf (renderTypingTest ((newSession [CHR ''a'', newline, CHR ''b''])\<lparr>textUserTyped := ''a''\<rparr>))
     \<noteq> map (\<lambda>i. Some (specClassify (runes ''a'') (runes [CHR ''a'', newline, CHR ''b'']) i)) [0, 1, 2]"
  by (simp add: eval_simps renderTypingTest_def specClassify_def)

end
